theory Spec2Isabelle
  imports Main
begin

section \<open>Data model\<close>

text \<open>
  \<^verbatim>\<open>article.h\<close>: an article is a title and a URL. The aggregator reads both fields
  (\<^verbatim>\<open>article.title\<close>, \<^verbatim>\<open>article.url\<close>).
\<close>

record Article =
  title :: string
  url :: string

subsection \<open>The index\<close>

text \<open>
  The index maps a token to the list of (article, occurrence count) pairs of the
  articles holding that token, in the order in which the articles were first
  submitted for it. A token that was never submitted has no entry. Counts have the
  type the aggregator reads them at, \<^verbatim>\<open>pair<Article, int>\<close>.
\<close>

type_synonym RSSIndex = "string \<rightharpoonup> (Article \<times> int) list"

definition emptyIndex :: RSSIndex where
  "emptyIndex = Map.empty"

text \<open>The entries stored for a token; none when the token has no entry.\<close>

definition entries :: "RSSIndex \<Rightarrow> string \<Rightarrow> (Article \<times> int) list" where
  "entries idx token = (case idx token of None \<Rightarrow> [] | Some es \<Rightarrow> es)"

text \<open>
  Modelled from the spec: \<^verbatim>\<open>RSSIndex::add\<close> (rss-index.cc is not among the sources).
  For each token of the sequence the occurrence count of (token, article) goes up by
  one; the token's entry and the article's sub-entry are created when they are not
  there. An article is identified by its URL, and a (token, URL) pair has one
  sub-entry, whose count accumulates.
\<close>

fun increment :: "Article \<Rightarrow> (Article \<times> int) list \<Rightarrow> (Article \<times> int) list" where
  "increment article [] = [(article, 1)]"
| "increment article ((a, n) # es) =
     (if url a = url article then (a, n + 1) # es else (a, n) # increment article es)"

definition addToken :: "Article \<Rightarrow> RSSIndex \<Rightarrow> string \<Rightarrow> RSSIndex" where
  "addToken article idx token = idx(token \<mapsto> increment article (entries idx token))"

definition add :: "Article \<Rightarrow> string list \<Rightarrow> RSSIndex \<Rightarrow> RSSIndex" where
  "add article tokens idx = foldl (addToken article) idx tokens"

text \<open>
  Modelled from the spec: \<^verbatim>\<open>RSSIndex::getMatchingArticles\<close> (rss-index.cc is not
  among the sources). Every article holding the term, with its count, by descending
  count; articles of equal count stay in insertion order (the sort is stable).
\<close>

definition getMatchingArticles :: "RSSIndex \<Rightarrow> string \<Rightarrow> (Article \<times> int) list" where
  "getMatchingArticles idx word =
     (case idx word of
        None \<Rightarrow> []
      | Some matches \<Rightarrow> sort_key (\<lambda>match. - snd match) matches)"

text \<open>The count the index holds for a (token, article URL) pair; 0 when it holds none.\<close>

fun countIn :: "Article \<Rightarrow> (Article \<times> int) list \<Rightarrow> int" where
  "countIn article [] = 0"
| "countIn article ((a, n) # es) = (if url a = url article then n else countIn article es)"

definition occurrences :: "RSSIndex \<Rightarrow> string \<Rightarrow> Article \<Rightarrow> int" where
  "occurrences idx token article = countIn article (entries idx token)"

text \<open>
  Whether a list of entries holds one for the article's URL, and the URLs of a list of
  entries in order: the spec's invariant is that the URLs of a token's entries are
  distinct.
\<close>

fun present :: "Article \<Rightarrow> (Article \<times> int) list \<Rightarrow> bool" where
  "present article [] = False"
| "present article ((a, n) # es) = (url a = url article \<or> present article es)"

fun urls :: "(Article \<times> int) list \<Rightarrow> string list" where
  "urls [] = []"
| "urls ((a, n) # es) = url a # urls es"

section \<open>The aggregator\<close>

subsection \<open>What the aggregator takes from its collaborators\<close>

text \<open>
  The parsers and the string helpers are declared in headers that are not among the
  sources (rss-feed-list.h, rss-feed.h, html-document.h, news-aggregator-utils.h), so
  they are parameters of the model. A parser gives \<open>None\<close> where the C++ throws its
  exception (\<^verbatim>\<open>RSSFeedListException\<close>, \<^verbatim>\<open>RSSFeedException\<close>,
  \<^verbatim>\<open>HTMLDocumentException\<close>) and otherwise what the getter after it returns
  (\<^verbatim>\<open>getFeeds\<close> as the sequence of (URL, title) pairs the loop iterates over,
  \<^verbatim>\<open>getArticles\<close>, \<^verbatim>\<open>getTokens\<close>).
\<close>

record env =
  feedListParse :: "string \<Rightarrow> (string \<times> string) list option"
  feedParse :: "string \<Rightarrow> Article list option"
  htmlParse :: "string \<Rightarrow> string list option"
  getURLServer :: "string \<Rightarrow> string"
  shouldTruncate :: "string \<Rightarrow> bool"
  truncateStr :: "string \<Rightarrow> string"

subsection \<open>Globals\<close>

text \<open>
  The static variables of news-aggregator.cc, and the two output streams as the text
  written to them so far. A semaphore is the number of permits it holds;
  \<^verbatim>\<open>serverlocks\<close> has no entry for a server whose pointer is still null. A mutex is
  \<open>True\<close> while it is held.
\<close>

record state =
  index :: RSSIndex
  serverlocks :: "string \<rightharpoonup> nat"
  feedsAllowed :: nat
  threadsAllowed :: nat
  rssindexlock :: bool
  servermaplock :: bool
  cout :: string
  cerr :: string

definition kMaxfeed :: nat where "kMaxfeed = 8"
definition kMaxTperS :: nat where "kMaxTperS = 12"
definition kMaxthread :: nat where "kMaxthread = 64"
definition kMaxMatchesToShow :: nat where "kMaxMatchesToShow = 15"

definition initial :: state where
  "initial = \<lparr>index = emptyIndex, serverlocks = Map.empty, feedsAllowed = kMaxfeed,
     threadsAllowed = kMaxthread, rssindexlock = False, servermaplock = False,
     cout = [], cerr = []\<rparr>"

subsection \<open>Outcomes\<close>

text \<open>
  A function of the aggregator returns, or calls \<^verbatim>\<open>exit\<close> (the status and the
  globals at that moment), or cannot go on: \<open>Blocked\<close> when it waits on a semaphore
  without permits or on a held mutex and no other thread is there to release it,
  \<open>NullSemaphore\<close> when it dereferences a null \<^verbatim>\<open>unique_ptr<semaphore>\<close>.
\<close>

datatype 'a outcome = Return 'a | Exit int state | Blocked | NullSemaphore

fun andThen :: "'a outcome \<Rightarrow> ('a \<Rightarrow> 'b outcome) \<Rightarrow> 'b outcome" where
  "andThen (Return x) f = f x"
| "andThen (Exit status st) f = Exit status st"
| "andThen Blocked f = Blocked"
| "andThen NullSemaphore f = NullSemaphore"

subsection \<open>Semaphores and mutexes\<close>

text \<open>
  Modelled from the spec: \<^verbatim>\<open>semaphore\<close> (semaphore.h is not among the sources), a
  counting permit pool. \<open>wait\<close> takes a permit and blocks when there is none;
  \<open>signal\<close> gives one back.
\<close>

definition sem_wait :: "nat \<Rightarrow> nat option" where
  "sem_wait permits = (if permits = 0 then None else Some (permits - 1))"

definition sem_signal :: "nat \<Rightarrow> nat" where
  "sem_signal permits = permits + 1"

definition feedsAllowed_wait :: "state \<Rightarrow> state outcome" where
  "feedsAllowed_wait st =
     (case sem_wait (feedsAllowed st) of
        None \<Rightarrow> Blocked
      | Some n \<Rightarrow> Return (st\<lparr>feedsAllowed := n\<rparr>))"

definition feedsAllowed_signal :: "state \<Rightarrow> state" where
  "feedsAllowed_signal st = st\<lparr>feedsAllowed := sem_signal (feedsAllowed st)\<rparr>"

definition threadsAllowed_wait :: "state \<Rightarrow> state outcome" where
  "threadsAllowed_wait st =
     (case sem_wait (threadsAllowed st) of
        None \<Rightarrow> Blocked
      | Some n \<Rightarrow> Return (st\<lparr>threadsAllowed := n\<rparr>))"

definition threadsAllowed_signal :: "state \<Rightarrow> state" where
  "threadsAllowed_signal st = st\<lparr>threadsAllowed := sem_signal (threadsAllowed st)\<rparr>"

text \<open>
  \<^verbatim>\<open>up->wait()\<close> and \<^verbatim>\<open>up->signal()\<close>, where \<^verbatim>\<open>up\<close> refers to the entry of
  \<^verbatim>\<open>serverlocks\<close> for a server: the reference is modelled by the server's key.
\<close>

definition up_wait :: "string \<Rightarrow> state \<Rightarrow> state outcome" where
  "up_wait up st =
     (case serverlocks st up of
        None \<Rightarrow> NullSemaphore
      | Some permits \<Rightarrow>
          (case sem_wait permits of
             None \<Rightarrow> Blocked
           | Some n \<Rightarrow> Return (st\<lparr>serverlocks := (serverlocks st)(up \<mapsto> n)\<rparr>)))"

definition up_signal :: "string \<Rightarrow> state \<Rightarrow> state outcome" where
  "up_signal up st =
     (case serverlocks st up of
        None \<Rightarrow> NullSemaphore
      | Some permits \<Rightarrow>
          Return (st\<lparr>serverlocks := (serverlocks st)(up \<mapsto> sem_signal permits)\<rparr>))"

definition rssindexlock_lock :: "state \<Rightarrow> state outcome" where
  "rssindexlock_lock st =
     (if rssindexlock st then Blocked else Return (st\<lparr>rssindexlock := True\<rparr>))"

definition rssindexlock_unlock :: "state \<Rightarrow> state" where
  "rssindexlock_unlock st = st\<lparr>rssindexlock := False\<rparr>"

definition servermaplock_lock :: "state \<Rightarrow> state outcome" where
  "servermaplock_lock st =
     (if servermaplock st then Blocked else Return (st\<lparr>servermaplock := True\<rparr>))"

definition servermaplock_unlock :: "state \<Rightarrow> state" where
  "servermaplock_unlock st = st\<lparr>servermaplock := False\<rparr>"

subsection \<open>Output\<close>

definition endl :: string where
  "endl = [CHR 0x0A]"

definition dquote :: string where
  "dquote = [CHR 0x22]"

definition print :: "string \<Rightarrow> state \<Rightarrow> state" where
  "print text st = st\<lparr>cout := cout st @ text\<rparr>"

definition printErr :: "string \<Rightarrow> state \<Rightarrow> state" where
  "printErr text st = st\<lparr>cerr := cerr st @ text\<rparr>"

text \<open>\<^verbatim>\<open>setw(n) << setfill(' ')\<close> before one item: blanks on the left up to width n.\<close>

definition setw :: "nat \<Rightarrow> string \<Rightarrow> string" where
  "setw n text = replicate (n - length text) (CHR '' '') @ text"

text \<open>\<^verbatim>\<open>operator<<\<close> on a \<^verbatim>\<open>size_t\<close> and on an \<^verbatim>\<open>int\<close>: decimal digits.\<close>

fun show_nat :: "nat \<Rightarrow> string" where
  "show_nat n =
     (if n < 10 then [''0123456789'' ! n]
      else show_nat (n div 10) @ [''0123456789'' ! (n mod 10)])"

declare show_nat.simps [simp del]

definition show_int :: "int \<Rightarrow> string" where
  "show_int i = (if i < 0 then CHR ''-'' # show_nat (nat (- i)) else show_nat (nat i))"

text \<open>
  \<^verbatim>\<open>if (shouldTruncate(s)) s = truncate(s);\<close> on a local copy of a title or URL.
\<close>

definition displayed :: "env \<Rightarrow> string \<Rightarrow> string" where
  "displayed env s = (if shouldTruncate env s then truncateStr env s else s)"

subsection \<open>printUsage\<close>

definition printUsage :: "string \<Rightarrow> state \<Rightarrow> state" where
  "printUsage executableName st =
     printErr (''Usage: '' @ executableName @ '' <feed-url>'' @ endl) st"

subsection \<open>articletoTokens\<close>

text \<open>
  The body of an article thread. The caller has taken the server's permit before it
  started the thread; the thread takes the global permit itself. \<open>htmlDoc\<close> is the URL
  the document was built from, before the local copy is cut for display; it is what
  \<^verbatim>\<open>getURL\<close> gives back in the error message.
\<close>

definition articletoTokens :: "env \<Rightarrow> Article \<Rightarrow> string \<Rightarrow> state \<Rightarrow> state outcome" where
  "articletoTokens env article up st0 =
     andThen (threadsAllowed_wait st0) (\<lambda>st1.
       let title1 = displayed env (title article);
           htmlDoc = url article;
           url1 = displayed env (url article);
           st2 = print (''  '' @ setw 2 (''Parsing '' @ dquote) @ title1 @ dquote @ endl) st1;
           st3 = print (''  '' @ setw 6 (''[at '' @ dquote) @ url1 @ dquote @ '']'' @ endl) st2
       in case htmlParse env htmlDoc of
            None \<Rightarrow>
              (let st4 = printErr (''Ran into trouble while pulling full html document from ''
                           @ dquote @ htmlDoc @ dquote @ ''.'' @ endl) st3;
                   st5 = printErr (''Aborting....'' @ endl) st4;
                   st6 = threadsAllowed_signal st5
               in up_signal up st6)
          | Some tokens \<Rightarrow>
              andThen (rssindexlock_lock st3) (\<lambda>st4.
                let st5 = st4\<lparr>index := add article tokens (index st4)\<rparr>;
                    st6 = rssindexlock_unlock st5;
                    st7 = threadsAllowed_signal st6
                in up_signal up st7))"

subsection \<open>feedtoTokens\<close>

text \<open>
  The threads of the crawl are modelled under one schedule: a thread runs to its end at
  the point where it is created, and the later \<^verbatim>\<open>join\<close> finds it finished. So the
  loop below looks the server's semaphore up (creating it with \<^verbatim>\<open>kMaxTperS\<close> permits
  when the pointer is null), waits on it, and runs the article's thread.
\<close>

fun articleLoop :: "env \<Rightarrow> Article list \<Rightarrow> state \<Rightarrow> state outcome" where
  "articleLoop env [] st = Return st"
| "articleLoop env (article # articles) st =
     (let serverurl = getURLServer env (url article)
      in andThen (servermaplock_lock st) (\<lambda>st1.
           let st2 = (case serverlocks st1 serverurl of
                        None \<Rightarrow> st1\<lparr>serverlocks := (serverlocks st1)(serverurl \<mapsto> kMaxTperS)\<rparr>
                      | Some _ \<Rightarrow> st1);
               st3 = servermaplock_unlock st2
           in andThen (up_wait serverurl st3) (\<lambda>st4.
                andThen (articletoTokens env article serverurl st4) (\<lambda>st5.
                  articleLoop env articles st5))))"

definition feedtoTokens :: "env \<Rightarrow> string \<times> string \<Rightarrow> state \<Rightarrow> state outcome" where
  "feedtoTokens env feed st0 =
     (let st1 = print (''Begin full download of feed URI: '' @ fst feed @ endl) st0
      in case feedParse env (fst feed) of
           None \<Rightarrow>
             (let st2 = printErr (''Ran into trouble while pulling full RSS feed from ''
                          @ dquote @ fst feed @ dquote @ ''.'' @ endl) st1;
                  st3 = printErr (''Aborting....'' @ endl) st2
              in Return (feedsAllowed_signal st3))
         | Some articles \<Rightarrow>
             andThen (articleLoop env articles (feedsAllowed_signal st1)) (\<lambda>st2.
               Return (print (''End full download of feed URI: '' @ fst feed @ endl) st2)))"

subsection \<open>processAllFeeds\<close>

fun feedLoop :: "env \<Rightarrow> (string \<times> string) list \<Rightarrow> state \<Rightarrow> state outcome" where
  "feedLoop env [] st = Return st"
| "feedLoop env (feed # feeds) st =
     andThen (feedsAllowed_wait st) (\<lambda>st1.
       andThen (feedtoTokens env feed st1) (\<lambda>st2.
         feedLoop env feeds st2))"

definition processAllFeeds :: "env \<Rightarrow> string \<Rightarrow> state \<Rightarrow> state outcome" where
  "processAllFeeds env feedListURI st =
     (case feedListParse env feedListURI of
        None \<Rightarrow>
          (let st1 = printErr (''Ran into trouble while pulling full RSS feed list from ''
                       @ dquote @ feedListURI @ dquote @ ''.'' @ endl) st;
               st2 = printErr (''Aborting....'' @ endl) st1
           in Exit 0 st2)
      | Some allfeeds \<Rightarrow> feedLoop env allfeeds st)"

subsection \<open>queryIndex\<close>

text \<open>
  Modelled from the spec: \<^verbatim>\<open>trim\<close> (string-utils.h is not among the sources) removes
  the whitespace around a string; whitespace is what \<^verbatim>\<open>isspace\<close> accepts.
\<close>

definition isspace :: "char \<Rightarrow> bool" where
  "isspace c \<longleftrightarrow> c \<in> set [CHR '' '', CHR 0x09, CHR 0x0A, CHR 0x0B, CHR 0x0C, CHR 0x0D]"

definition trim :: "string \<Rightarrow> string" where
  "trim s = rev (dropWhile isspace (rev (dropWhile isspace s)))"

text \<open>
  Standard input is the list of the lines still to be read. \<^verbatim>\<open>getline\<close> takes the
  first one; at the end of the input it leaves the fresh \<^verbatim>\<open>response\<close> empty.
\<close>

definition getline :: "string list \<Rightarrow> string \<times> string list" where
  "getline cin = (case cin of [] \<Rightarrow> ([], []) | line # rest \<Rightarrow> (line, rest))"

text \<open>
  The \<^verbatim>\<open>for\<close> loop over the matches, with its counter and its \<^verbatim>\<open>break\<close>.
  \<open>showMatch\<close> is the body of one pass after \<^verbatim>\<open>count++\<close>: the two lines printed
  for a match.
\<close>

definition showMatch :: "env \<Rightarrow> nat \<Rightarrow> Article \<times> int \<Rightarrow> state \<Rightarrow> state" where
  "showMatch env count match st =
     (let title1 = displayed env (title (fst match));
          url1 = displayed env (url (fst match));
          times = (if snd match = 1 then ''time'' else ''times'');
          st1 = print (''  '' @ setw 2 (show_nat count) @ ''.) ''
                  @ dquote @ title1 @ dquote @ '' [appears '' @ show_int (snd match)
                  @ '' '' @ times @ ''].'' @ endl) st
      in print (''       '' @ dquote @ url1 @ dquote @ endl) st1)"

fun showMatches :: "env \<Rightarrow> nat \<Rightarrow> (Article \<times> int) list \<Rightarrow> state \<Rightarrow> state" where
  "showMatches env count [] st = st"
| "showMatches env count (match # matches) st =
     (if count = kMaxMatchesToShow then st
      else showMatches env (count + 1) matches (showMatch env (count + 1) match st))"

text \<open>One pass of the \<^verbatim>\<open>while\<close> loop after its \<^verbatim>\<open>break\<close> test: the answer to a term.\<close>

definition answer :: "env \<Rightarrow> string \<Rightarrow> state \<Rightarrow> state" where
  "answer env response st =
     (let matches = getMatchingArticles (index st) response
      in if matches = [] then
           print (''Ah, we didn't find the term '' @ dquote @ response @ dquote
                    @ ''. Try again.'' @ endl) st
         else
           let st1 = print (''That term appears in '' @ show_nat (length matches)
                       @ '' article'' @ (if length matches = 1 then [] else ''s'')
                       @ ''.  '') st;
               st2 = (if length matches > kMaxMatchesToShow then
                        print (''Here are the top '' @ show_nat kMaxMatchesToShow
                                 @ '' of them:'' @ endl) st1
                      else print (''Here they are:'' @ endl) st1)
           in showMatches env 0 matches st2)"

definition prompt :: string where
  "prompt = ''Enter a search term [or just hit <enter> to quit]: ''"

function queryIndex :: "env \<Rightarrow> string list \<Rightarrow> state \<Rightarrow> state" where
  "queryIndex env cin st =
     (let st1 = print prompt st;
          response = trim (fst (getline cin))
      in if response = [] then st1
         else queryIndex env (snd (getline cin)) (answer env response st1))"
  by pat_completeness auto
termination
proof (relation "measure (\<lambda>(env, cin, st). length cin)")
  show "wf (measure (\<lambda>(env, cin, st). length cin))" by simp
next
  fix env :: env and cin :: "string list" and st st1 :: state and response :: string
  assume "response = trim (fst (getline cin))" and "response \<noteq> []"
  then have "cin \<noteq> []"
    by (auto simp: getline_def trim_def)
  then show "((env, snd (getline cin), answer env response st1), (env, cin, st))
               \<in> measure (\<lambda>(env, cin, st). length cin)"
    by (cases cin) (simp_all add: getline_def)
qed

declare queryIndex.simps [simp del]

subsection \<open>main\<close>

text \<open>
  \<^verbatim>\<open>argv\<close> is the executable's name \<^verbatim>\<open>argv[0]\<close>, which the host environment supplies,
  followed by the user's arguments, so \<^verbatim>\<open>argc\<close> is one more than their number. The
  result of \<open>Return\<close> is the status \<^verbatim>\<open>main\<close> returns with the globals at that moment.
  The libxml2 calls around the crawl touch none of the globals.
\<close>

definition main :: "env \<Rightarrow> string \<Rightarrow> string list \<Rightarrow> string list \<Rightarrow> (int \<times> state) outcome" where
  "main env executableName args cin =
     (let argc = 1 + length args
      in if argc \<noteq> 2 then
           (let st1 = printErr (''Error: wrong number of arguments.'' @ endl) initial;
                st2 = printUsage executableName st1
            in Exit 0 st2)
         else
           (let rssFeedListURI = hd args
            in andThen (processAllFeeds env rssFeedListURI initial) (\<lambda>st1.
                 let st2 = print endl st1;
                     st3 = queryIndex env cin st2;
                     st4 = print (''Exiting....'' @ endl) st3
                 in Return (0, st4))))"

subsection \<open>Between the threads\<close>

text \<open>
  The globals as they are whenever no feed or article thread is running: every
  semaphore holds a permit and no mutex is held.
\<close>

definition idle :: "state \<Rightarrow> bool" where
  "idle st \<longleftrightarrow> feedsAllowed st \<noteq> 0 \<and> threadsAllowed st \<noteq> 0 \<and> \<not> rssindexlock st \<and>
     \<not> servermaplock st \<and> (\<forall>server. serverlocks st server \<noteq> Some 0)"

subsection \<open>What the query loop writes\<close>

text \<open>
  The text of one ranked entry, the rank column of the first fifteen entries, the answer
  to a term given its matches, and all that a run of the query loop writes for its
  input. The lemmas on \<open>answer\<close> and \<open>queryIndex\<close> below prove that the loop writes
  exactly these.
\<close>

definition entryText :: "env \<Rightarrow> string \<Rightarrow> Article \<times> int \<Rightarrow> string" where
  "entryText env rank match =
     ''  '' @ rank @ ''.) '' @ dquote @ displayed env (title (fst match)) @ dquote
       @ '' [appears '' @ show_int (snd match) @ '' ''
       @ (if snd match = 1 then ''time'' else ''times'') @ ''].'' @ endl
       @ ''       '' @ dquote @ displayed env (url (fst match)) @ dquote @ endl"

definition rankTexts :: "string list" where
  "rankTexts = (['' 1'', '' 2'', '' 3'', '' 4'', '' 5''] @ ['' 6'', '' 7'', '' 8'', '' 9'', ''10'']
      @ [''11'', ''12'', ''13'', ''14'', ''15''])"

definition answerText :: "env \<Rightarrow> (Article \<times> int) list \<Rightarrow> string \<Rightarrow> string" where
  "answerText env matches response =
     (if matches = [] then
        ''Ah, we didn't find the term '' @ dquote @ response @ dquote @ ''. Try again.'' @ endl
      else
        ''That term appears in '' @ show_nat (length matches) @ '' article''
          @ (if length matches = 1 then [] else ''s'') @ ''.  ''
          @ (if 15 < length matches then ''Here are the top 15 of them:''
             else ''Here they are:'') @ endl
          @ concat (map2 (entryText env) rankTexts matches))"

definition transcript :: "env \<Rightarrow> RSSIndex \<Rightarrow> string list \<Rightarrow> string" where
  "transcript env idx cin =
     concat (map (\<lambda>line. prompt @ answerText env (getMatchingArticles idx (trim line)) (trim line))
               (takeWhile (\<lambda>line. trim line \<noteq> []) cin))
       @ prompt"

section \<open>Example inputs\<close>

definition articleA :: Article where
  "articleA = \<lparr>title = ''A long headline about Go'', url = ''http://a.example/1''\<rparr>"

definition articleB :: Article where
  "articleB = \<lparr>title = ''B'', url = ''http://b.example/1''\<rparr>"

definition exampleIndex :: RSSIndex where
  "exampleIndex = add articleB [''go'', ''rust'', ''go''] (add articleA [''go''] emptyIndex)"

text \<open>
  Collaborators for the examples: the feed list names two feeds, feed A parses to one
  article and feed B fails, article A parses to three tokens and every other article
  fails; a text longer than ten characters is cut to seven and an ellipsis.
\<close>

definition exampleEnv :: env where
  "exampleEnv =
     \<lparr>feedListParse = (\<lambda>uri. if uri = ''feeds.xml''
          then Some [(''http://a.example/rss'', ''A''), (''http://b.example/rss'', ''B'')]
          else None),
      feedParse = (\<lambda>uri. if uri = ''http://a.example/rss'' then Some [articleA] else None),
      htmlParse = (\<lambda>uri. if uri = ''http://a.example/1''
          then Some [''go'', ''rust'', ''go''] else None),
      getURLServer = (\<lambda>uri. takeWhile (\<lambda>c. c \<noteq> CHR ''/'') (drop 7 uri)),
      shouldTruncate = (\<lambda>s. 10 < length s),
      truncateStr = (\<lambda>s. take 7 s @ ''...'')\<rparr>"

text \<open>
  The globals when an article thread for a server starts: its creator has taken one of
  the server's twelve permits for it.
\<close>

definition exampleState :: "string \<Rightarrow> state" where
  "exampleState server = initial\<lparr>serverlocks := [server \<mapsto> 11]\<rparr>"

text \<open>The same collaborators, with every feed failing to parse.\<close>

definition failingEnv :: env where
  "failingEnv = exampleEnv\<lparr>feedParse := \<lambda>uri. None\<rparr>"

text \<open>The collaborators with the failing feed listed first.\<close>

definition resumingEnv :: env where
  "resumingEnv =
     exampleEnv\<lparr>feedListParse := \<lambda>uri. if uri = ''feeds.xml''
        then Some [(''http://b.example/rss'', ''B''), (''http://a.example/rss'', ''A'')]
        else None\<rparr>"

text \<open>Globals whose index holds sixteen articles for one token, and two.\<close>

definition crowdedState :: state where
  "crowdedState =
     initial\<lparr>index := [''go'' \<mapsto>
       map (\<lambda>n. (\<lparr>title = ''Story '' @ show_nat n,
                   url = ''http://a.example/'' @ show_nat n\<rparr>, 1)) [0..<16]]\<rparr>"

definition smallState :: state where
  "smallState = initial\<lparr>index := exampleIndex\<rparr>"

section \<open>The index: accumulation and ranking\<close>

lemma countIn_increment:
  "countIn b (increment a es) = (if url b = url a then countIn b es + 1 else countIn b es)"
  by (induction es) auto

lemma entries_addToken:
  "entries (addToken a idx t) t' =
     (if t' = t then increment a (entries idx t) else entries idx t')"
  by (simp add: entries_def addToken_def)

lemma occurrences_addToken:
  "occurrences (addToken a idx t) t' b =
     (if t' = t \<and> url b = url a then occurrences idx t' b + 1 else occurrences idx t' b)"
  by (simp add: occurrences_def entries_addToken countIn_increment)

lemma occurrences_foldl:
  "occurrences (foldl (addToken a) idx ts) t b =
     (if url b = url a then occurrences idx t b + int (count_list ts t)
      else occurrences idx t b)"
  by (induction ts arbitrary: idx) (auto simp: occurrences_addToken)

lemma occurrences_add:
  "occurrences (add a ts idx) t b =
     (if url b = url a then occurrences idx t b + int (count_list ts t)
      else occurrences idx t b)"
  by (simp add: add_def occurrences_foldl)

lemma present_increment: "present a (increment a es)"
  by (induction es) auto

lemma present_increment_other: "present a es \<Longrightarrow> present a (increment b es)"
  by (induction es) auto

lemma map_fst_increment: "present a es \<Longrightarrow> map fst (increment a es) = map fst es"
  by (induction es) auto

lemma entries_foldl_other:
  "t \<notin> set ts \<Longrightarrow> entries (foldl (addToken a) idx ts) t = entries idx t"
  by (induction ts arbitrary: idx) (auto simp: entries_addToken)

lemma entries_foldl_present:
  "present a (entries idx t) \<Longrightarrow>
     present a (entries (foldl (addToken a) idx ts) t) \<and>
     map fst (entries (foldl (addToken a) idx ts) t) = map fst (entries idx t)"
proof (induction ts arbitrary: idx)
  case Nil
  then show ?case by simp
next
  case (Cons x ts)
  have step: "present a (entries (addToken a idx x) t)"
    using Cons.prems by (simp add: entries_addToken present_increment)
  have "map fst (entries (addToken a idx x) t) = map fst (entries idx t)"
    using Cons.prems by (auto simp: entries_addToken map_fst_increment)
  with Cons.IH [OF step] show ?case by simp
qed

lemma present_foldl:
  "t \<in> set ts \<Longrightarrow> present a (entries (foldl (addToken a) idx ts) t)"
proof (induction ts arbitrary: idx)
  case Nil
  then show ?case by simp
next
  case (Cons x ts)
  show ?case
  proof (cases "x = t")
    case True
    have "present a (entries (addToken a idx x) t)"
      using True by (simp add: entries_addToken present_increment)
    then show ?thesis
      using entries_foldl_present by simp
  next
    case False
    with Cons show ?thesis by simp
  qed
qed

lemma articles_add_twice:
  "map fst (entries (add a ts (add a ts idx)) t) = map fst (entries (add a ts idx) t)"
proof (cases "t \<in> set ts")
  case True
  then have "present a (entries (add a ts idx) t)"
    by (simp add: add_def present_foldl)
  then show ?thesis
    using entries_foldl_present [of a "add a ts idx" t ts] by (simp add: add_def)
next
  case False
  then show ?thesis
    by (simp add: add_def entries_foldl_other)
qed

lemma set_urls_increment: "set (urls (increment a es)) = insert (url a) (set (urls es))"
  by (induction es) (auto split: if_splits)

lemma distinct_increment: "distinct (urls es) \<Longrightarrow> distinct (urls (increment a es))"
proof (induction es)
  case Nil
  then show ?case by simp
next
  case (Cons e es)
  obtain b n where e: "e = (b, n)" by (cases e)
  show ?case
  proof (cases "url b = url a")
    case True
    with Cons.prems show ?thesis by (simp add: e)
  next
    case False
    have "url b \<notin> set (urls es)" and "distinct (urls es)"
      using Cons.prems by (simp_all add: e)
    then have "url b \<notin> set (urls (increment a es))" and "distinct (urls (increment a es))"
      using False Cons.IH by (simp_all add: set_urls_increment)
    then show ?thesis
      using False by (simp add: e)
  qed
qed

lemma distinct_add:
  "distinct (urls (entries idx t)) \<Longrightarrow> distinct (urls (entries (add a ts idx) t))"
  unfolding add_def
proof (induction ts arbitrary: idx)
  case Nil
  then show ?case by simp
next
  case (Cons x ts)
  have "distinct (urls (entries (addToken a idx x) t))"
    using Cons.prems by (auto simp: entries_addToken distinct_increment)
  from Cons.IH [OF this] show ?case by simp
qed

lemma sorted_getMatchingArticles:
  "sorted (map (\<lambda>match. - snd match) (getMatchingArticles idx word))"
  by (simp add: getMatchingArticles_def split: option.split)

lemma exampleIndex_go:
  "getMatchingArticles exampleIndex ''go'' = [(articleB, 2), (articleA, 1)]"
  by (simp add: exampleIndex_def add_def addToken_def entries_def emptyIndex_def
      getMatchingArticles_def articleA_def articleB_def)

section \<open>Index claims\<close>

text \<open>
  C3. The sequence \<open>getMatchingArticles\<close> returns for a term is ordered by
  non-increasing occurrence count: of every two adjacent entries the earlier one's
  count is greater than or equal to the later one's.
\<close>

theorem getMatchingArticles_nonincreasing:
  "\<forall>i. Suc i < length (getMatchingArticles idx word) \<longrightarrow>
       snd (getMatchingArticles idx word ! Suc i) \<le> snd (getMatchingArticles idx word ! i)"
proof (intro allI impI)
  fix i
  assume i: "Suc i < length (getMatchingArticles idx word)"
  let ?r = "getMatchingArticles idx word"
  have "sorted (map (\<lambda>match. - snd match) ?r)"
    by (rule sorted_getMatchingArticles)
  then have "map (\<lambda>match. - snd match) ?r ! i \<le> map (\<lambda>match. - snd match) ?r ! Suc i"
    using i by (simp add: sorted_iff_nth_Suc del: nth_map)
  then show "snd (?r ! Suc i) \<le> snd (?r ! i)"
    using i by simp
qed

theorem getMatchingArticles_nonincreasing_witness:
  "Suc 0 < length (getMatchingArticles exampleIndex ''go'') \<and>
   getMatchingArticles exampleIndex ''go'' = [(articleB, 2), (articleA, 1)] \<and>
   snd (getMatchingArticles exampleIndex ''go'' ! Suc 0)
     \<le> snd (getMatchingArticles exampleIndex ''go'' ! 0)"
  using getMatchingArticles_nonincreasing [of exampleIndex "''go''"]
  by (simp add: exampleIndex_go)

text \<open>
  C4. Submitting the same article with the same token sequence twice adds to every
  token's count twice what one submission adds; where the index held no count for the
  (token, article) pair before, as in an index created empty, the count after two
  submissions is exactly double the count after one. The second submission creates no
  entry: the articles listed under a token are those listed after the first, and a
  token's entries stay at one per URL.
\<close>

theorem add_twice_doubles:
  "occurrences (add a ts (add a ts idx)) t a - occurrences idx t a
     = 2 * (occurrences (add a ts idx) t a - occurrences idx t a) \<and>
   (occurrences idx t a = 0 \<longrightarrow>
      occurrences (add a ts (add a ts idx)) t a = 2 * occurrences (add a ts idx) t a) \<and>
   map fst (entries (add a ts (add a ts idx)) t) = map fst (entries (add a ts idx) t) \<and>
   (distinct (urls (entries idx t)) \<longrightarrow>
      distinct (urls (entries (add a ts (add a ts idx)) t)))"
  by (simp add: occurrences_add articles_add_twice distinct_add)

theorem add_twice_doubles_witness:
  "occurrences emptyIndex ''go'' articleB = 0 \<and>
   distinct (urls (entries emptyIndex ''go'')) \<and>
   occurrences (add articleB [''go'', ''rust'', ''go''] emptyIndex) ''go'' articleB = 2 \<and>
   occurrences (add articleB [''go'', ''rust'', ''go'']
                  (add articleB [''go'', ''rust'', ''go''] emptyIndex)) ''go'' articleB = 4 \<and>
   distinct (urls (entries (add articleB [''go'', ''rust'', ''go'']
                  (add articleB [''go'', ''rust'', ''go''] emptyIndex)) ''go''))"
proof -
  have zero: "occurrences emptyIndex ''go'' articleB = 0"
    by (simp add: occurrences_def entries_def emptyIndex_def)
  have none: "distinct (urls (entries emptyIndex ''go''))"
    by (simp add: entries_def emptyIndex_def)
  have once: "occurrences (add articleB [''go'', ''rust'', ''go''] emptyIndex) ''go'' articleB = 2"
    by (simp add: occurrences_add zero)
  show ?thesis
    using add_twice_doubles [of articleB "[''go'', ''rust'', ''go'']" emptyIndex "''go''"]
      zero none once
    by simp
qed

section \<open>The aggregator: tasks and loops\<close>

lemma setw_short: "n \<le> length text \<Longrightarrow> setw n text = text"
  by (simp add: setw_def)

lemma articletoTokens_failure:
  assumes "htmlParse env (url article) = None"
    and "threadsAllowed st \<noteq> 0"
    and "serverlocks st up = Some permits"
  shows "articletoTokens env article up st =
     Return (st\<lparr>serverlocks := (serverlocks st)(up \<mapsto> permits + 1),
               cout := cout st @ ''  Parsing '' @ dquote @ displayed env (title article) @ dquote @ endl
                        @ ''   [at '' @ dquote @ displayed env (url article) @ dquote @ '']'' @ endl,
               cerr := cerr st @ ''Ran into trouble while pulling full html document from ''
                        @ dquote @ url article @ dquote @ ''.'' @ endl @ ''Aborting....'' @ endl\<rparr>)"
  using assms
  by (simp add: articletoTokens_def threadsAllowed_wait_def sem_wait_def Let_def print_def
      printErr_def threadsAllowed_signal_def sem_signal_def up_signal_def setw_def dquote_def)

lemma articletoTokens_success:
  assumes "htmlParse env (url article) = Some tokens"
    and "threadsAllowed st \<noteq> 0"
    and "\<not> rssindexlock st"
    and "serverlocks st up = Some permits"
  shows "articletoTokens env article up st =
     Return (st\<lparr>index := add article tokens (index st),
               serverlocks := (serverlocks st)(up \<mapsto> permits + 1),
               cout := cout st @ ''  Parsing '' @ dquote @ displayed env (title article) @ dquote @ endl
                        @ ''   [at '' @ dquote @ displayed env (url article) @ dquote @ '']'' @ endl\<rparr>)"
  using assms
  by (simp add: articletoTokens_def threadsAllowed_wait_def sem_wait_def Let_def print_def
      threadsAllowed_signal_def sem_signal_def up_signal_def setw_def dquote_def
      rssindexlock_lock_def rssindexlock_unlock_def)

lemma feedtoTokens_failure:
  assumes "feedParse env (fst feed) = None"
  shows "feedtoTokens env feed st =
     Return (st\<lparr>feedsAllowed := feedsAllowed st + 1,
               cout := cout st @ ''Begin full download of feed URI: '' @ fst feed @ endl,
               cerr := cerr st @ ''Ran into trouble while pulling full RSS feed from ''
                        @ dquote @ fst feed @ dquote @ ''.'' @ endl @ ''Aborting....'' @ endl\<rparr>)"
  using assms
  by (simp add: feedtoTokens_def Let_def print_def printErr_def feedsAllowed_signal_def
      sem_signal_def)

lemma feedLoop_failure:
  assumes "feedParse env (fst feed) = None" and "feedsAllowed st \<noteq> 0"
  shows "feedLoop env (feed # feeds) st =
     feedLoop env feeds
       (st\<lparr>cout := cout st @ ''Begin full download of feed URI: '' @ fst feed @ endl,
           cerr := cerr st @ ''Ran into trouble while pulling full RSS feed from ''
                        @ dquote @ fst feed @ dquote @ ''.'' @ endl @ ''Aborting....'' @ endl\<rparr>)"
  using assms
  by (simp add: feedtoTokens_failure feedsAllowed_wait_def sem_wait_def)


lemma idle_initial: "idle initial"
  by (simp add: idle_def initial_def kMaxfeed_def kMaxthread_def)

lemma servermaplock_free: "\<not> servermaplock st \<Longrightarrow> st\<lparr>servermaplock := False\<rparr> = st"
  by simp

lemma articleLoop_failure:
  assumes "htmlParse env (url article) = None"
    and "\<not> servermaplock st"
    and "threadsAllowed st \<noteq> 0"
    and "serverlocks st (getURLServer env (url article)) \<noteq> Some 0"
  shows "articleLoop env (article # articles) st =
     articleLoop env articles
       (st\<lparr>serverlocks := (serverlocks st)(getURLServer env (url article) \<mapsto>
               (case serverlocks st (getURLServer env (url article)) of
                  None \<Rightarrow> kMaxTperS | Some permits \<Rightarrow> permits)),
           cout := cout st @ ''  Parsing '' @ dquote @ displayed env (title article) @ dquote @ endl
                    @ ''   [at '' @ dquote @ displayed env (url article) @ dquote @ '']'' @ endl,
           cerr := cerr st @ ''Ran into trouble while pulling full html document from ''
                    @ dquote @ url article @ dquote @ ''.'' @ endl @ ''Aborting....'' @ endl\<rparr>)"
proof (cases "serverlocks st (getURLServer env (url article))")
  case None
  then show ?thesis
    using assms
    by (simp add: servermaplock_lock_def servermaplock_unlock_def up_wait_def sem_wait_def
        articletoTokens_failure servermaplock_free kMaxTperS_def)
next
  case (Some permits)
  then show ?thesis
    using assms
    by (simp add: servermaplock_lock_def servermaplock_unlock_def up_wait_def sem_wait_def
        articletoTokens_failure servermaplock_free kMaxTperS_def)
qed

lemma articletoTokens_idle:
  assumes "threadsAllowed st \<noteq> 0" and "\<not> rssindexlock st" and "serverlocks st up = Some permits"
  shows "\<exists>st'. articletoTokens env article up st = Return st' \<and>
           feedsAllowed st' = feedsAllowed st \<and> threadsAllowed st' = threadsAllowed st \<and>
           rssindexlock st' = rssindexlock st \<and> servermaplock st' = servermaplock st \<and>
           serverlocks st' = (serverlocks st)(up \<mapsto> permits + 1)"
proof (cases "htmlParse env (url article)")
  case None
  then show ?thesis
    using assms by (simp add: articletoTokens_failure)
next
  case (Some tokens)
  then show ?thesis
    using assms by (simp add: articletoTokens_success)
qed

lemma articleLoop_step_idle:
  assumes "idle st"
  shows "\<exists>st'. articleLoop env (article # articles) st = articleLoop env articles st' \<and> idle st'"
proof -
  let ?server = "getURLServer env (url article)"
  let ?permits = "case serverlocks st ?server of None \<Rightarrow> kMaxTperS | Some permits \<Rightarrow> permits"
  let ?st3 = "st\<lparr>serverlocks := (serverlocks st)(?server \<mapsto> ?permits)\<rparr>"
  have "serverlocks st ?server \<noteq> Some 0"
    using assms by (simp add: idle_def)
  then have pos: "?permits \<noteq> 0"
    by (cases "serverlocks st ?server") (simp_all add: kMaxTperS_def)
  let ?st4 = "?st3\<lparr>serverlocks := (serverlocks ?st3)(?server \<mapsto> ?permits - 1)\<rparr>"
  have loop: "articleLoop env (article # articles) st =
      andThen (articletoTokens env article ?server ?st4) (articleLoop env articles)"
    using assms pos
    by (auto simp: idle_def servermaplock_lock_def servermaplock_unlock_def up_wait_def
        sem_wait_def Let_def servermaplock_free split: option.split)
  have "threadsAllowed ?st4 \<noteq> 0" and "\<not> rssindexlock ?st4"
    and "serverlocks ?st4 ?server = Some (?permits - 1)"
    using assms by (simp_all add: idle_def)
  from articletoTokens_idle [OF this, of env article]
  obtain st' where task: "articletoTokens env article ?server ?st4 = Return st'"
    and same: "feedsAllowed st' = feedsAllowed ?st4" "threadsAllowed st' = threadsAllowed ?st4"
      "rssindexlock st' = rssindexlock ?st4" "servermaplock st' = servermaplock ?st4"
    and locks: "serverlocks st' = (serverlocks ?st4)(?server \<mapsto> ?permits - 1 + 1)"
    by blast
  have "idle st'"
    using assms pos same locks by (auto simp: idle_def)
  moreover have "articleLoop env (article # articles) st = articleLoop env articles st'"
    unfolding loop task by simp
  ultimately show ?thesis by blast
qed

lemma articleLoop_idle:
  "idle st \<Longrightarrow> \<exists>st'. articleLoop env articles st = Return st' \<and> idle st'"
proof (induction articles arbitrary: st)
  case Nil
  then show ?case by simp
next
  case (Cons article articles)
  from articleLoop_step_idle [OF Cons.prems, of env article articles]
  obtain st1 where "articleLoop env (article # articles) st = articleLoop env articles st1"
    and "idle st1" by blast
  with Cons.IH [of st1] show ?case by simp
qed

lemma idle_print: "idle (print text st) = idle st"
  by (simp add: idle_def print_def)

lemma idle_printErr: "idle (printErr text st) = idle st"
  by (simp add: idle_def printErr_def)

lemma feedLoop_step_idle:
  assumes "idle st"
  shows "\<exists>st'. feedLoop env (feed # feeds) st = feedLoop env feeds st' \<and> idle st'"
proof (cases "feedParse env (fst feed)")
  case None
  have "idle (st\<lparr>cout := cout st @ ''Begin full download of feed URI: '' @ fst feed @ endl,
           cerr := cerr st @ ''Ran into trouble while pulling full RSS feed from ''
                        @ dquote @ fst feed @ dquote @ ''.'' @ endl @ ''Aborting....'' @ endl\<rparr>)"
    using assms by (simp add: idle_def)
  then show ?thesis
    using feedLoop_failure [OF None, of st feeds] assms by (auto simp: idle_def)
next
  case (Some articles)
  let ?st1 = "print (''Begin full download of feed URI: '' @ fst feed @ endl) st"
  have "idle ?st1"
    using assms by (simp add: idle_print)
  from articleLoop_idle [OF this, of env articles]
  obtain st2 where loop: "articleLoop env articles ?st1 = Return st2" and "idle st2"
    by blast
  then have finished: "idle (print (''End full download of feed URI: '' @ fst feed @ endl) st2)"
    by (simp add: idle_print)
  have wait: "feedsAllowed_wait st = Return (st\<lparr>feedsAllowed := feedsAllowed st - 1\<rparr>)"
    using assms by (simp add: idle_def feedsAllowed_wait_def sem_wait_def)
  have signal: "feedsAllowed_signal (print (''Begin full download of feed URI: '' @ fst feed @ endl)
      (st\<lparr>feedsAllowed := feedsAllowed st - 1\<rparr>)) = ?st1"
    using assms by (simp add: idle_def feedsAllowed_signal_def sem_signal_def print_def)
  have task: "feedtoTokens env feed (st\<lparr>feedsAllowed := feedsAllowed st - 1\<rparr>) =
      Return (print (''End full download of feed URI: '' @ fst feed @ endl) st2)"
    unfolding feedtoTokens_def Let_def Some option.case signal loop by simp
  have "feedLoop env (feed # feeds) st =
      feedLoop env feeds (print (''End full download of feed URI: '' @ fst feed @ endl) st2)"
    by (simp only: feedLoop.simps wait andThen.simps task)
  with finished show ?thesis by blast
qed

lemma feedLoop_idle:
  "idle st \<Longrightarrow> \<exists>st'. feedLoop env feeds st = Return st' \<and> idle st'"
proof (induction feeds arbitrary: st)
  case Nil
  then show ?case by simp
next
  case (Cons feed feeds)
  from feedLoop_step_idle [OF Cons.prems, of env feed feeds]
  obtain st1 where "feedLoop env (feed # feeds) st = feedLoop env feeds st1"
    and "idle st1" by blast
  with Cons.IH [of st1] show ?case by simp
qed

lemma feedLoop_all_fail:
  "\<forall>feed \<in> set feeds. feedParse env (fst feed) = None \<Longrightarrow> feedsAllowed st \<noteq> 0 \<Longrightarrow>
   \<exists>st'. feedLoop env feeds st = Return st' \<and> index st' = index st \<and>
     serverlocks st' = serverlocks st \<and> feedsAllowed st' = feedsAllowed st \<and>
     threadsAllowed st' = threadsAllowed st"
proof (induction feeds arbitrary: st)
  case Nil
  then show ?case by simp
next
  case (Cons feed feeds)
  let ?st1 = "st\<lparr>cout := cout st @ ''Begin full download of feed URI: '' @ fst feed @ endl,
           cerr := cerr st @ ''Ran into trouble while pulling full RSS feed from ''
                        @ dquote @ fst feed @ dquote @ ''.'' @ endl @ ''Aborting....'' @ endl\<rparr>"
  have step: "feedLoop env (feed # feeds) st = feedLoop env feeds ?st1"
    using Cons.prems by (simp add: feedLoop_failure del: feedLoop.simps)
  have "\<forall>feed \<in> set feeds. feedParse env (fst feed) = None" and "feedsAllowed ?st1 \<noteq> 0"
    using Cons.prems by simp_all
  from Cons.IH [OF this] step show ?case by auto
qed

section \<open>The aggregator: queries\<close>

lemma show_nat_15: "show_nat 15 = ''15''"
  by (simp add: show_nat.simps)

lemma print_print: "print b (print a st) = print (a @ b) st"
  by (simp add: print_def)

lemma showMatches_fold:
  "count \<le> kMaxMatchesToShow \<Longrightarrow>
   showMatches env count matches st =
     fold (\<lambda>(rank, match). showMatch env rank match)
       (zip [Suc count..<Suc kMaxMatchesToShow] matches) st"
proof (induction matches arbitrary: count st)
  case Nil
  then show ?case by simp
next
  case (Cons match matches)
  show ?case
  proof (cases "count = kMaxMatchesToShow")
    case True
    then show ?thesis by simp
  next
    case False
    with Cons.prems have less: "count < kMaxMatchesToShow" by simp
    then have "[Suc count..<Suc kMaxMatchesToShow] =
        Suc count # [Suc (Suc count)..<Suc kMaxMatchesToShow]"
      by (simp add: upt_conv_Cons)
    moreover have "Suc count \<le> kMaxMatchesToShow"
      using less by simp
    ultimately show ?thesis
      using False Cons.IH [of "Suc count"] by simp
  qed
qed

lemma zip_take_left: "zip xs ys = zip xs (take (length xs) ys)"
proof (induction xs arbitrary: ys)
  case Nil
  then show ?case by simp
next
  case (Cons x xs)
  show ?case
  proof (cases ys)
    case Nil
    then show ?thesis by simp
  next
    case (Cons y ys')
    with Cons.IH [of ys'] show ?thesis by simp
  qed
qed

lemma zip_take_right: "zip xs ys = zip (take (length ys) xs) ys"
proof (induction ys arbitrary: xs)
  case Nil
  then show ?case by simp
next
  case (Cons y ys)
  show ?case
  proof (cases xs)
    case Nil
    then show ?thesis by simp
  next
    case (Cons x xs')
    with Cons.IH [of xs'] show ?thesis by simp
  qed
qed

lemma zip_upt_short:
  assumes "length ys \<le> n"
  shows "zip [Suc 0..<Suc n] ys = zip [Suc 0..<Suc (length ys)] ys"
proof -
  have "take (length ys) [Suc 0..<Suc n] = [Suc 0..<Suc 0 + length ys]"
    using assms by (intro take_upt) simp
  then have "take (length ys) [Suc 0..<Suc n] = [Suc 0..<Suc (length ys)]"
    by simp
  then show ?thesis
    using zip_take_right [of "[Suc 0..<Suc n]" ys] by simp
qed

lemma answer_none:
  "getMatchingArticles (index st) response = [] \<Longrightarrow>
   answer env response st =
     print (''Ah, we didn't find the term '' @ dquote @ response @ dquote
              @ ''. Try again.'' @ endl) st"
  by (simp add: answer_def)

lemma answer_top:
  assumes "kMaxMatchesToShow < length (getMatchingArticles (index st) response)"
  shows "answer env response st =
     fold (\<lambda>(rank, match). showMatch env rank match)
       (zip [1..<16] (take 15 (getMatchingArticles (index st) response)))
       (print (''That term appears in ''
                 @ show_nat (length (getMatchingArticles (index st) response))
                 @ '' articles.  Here are the top 15 of them:'' @ endl) st)"
proof -
  let ?matches = "getMatchingArticles (index st) response"
  have ne: "?matches \<noteq> []" and many: "length ?matches \<noteq> 1"
    using assms by (auto simp: kMaxMatchesToShow_def)
  have "zip [Suc 0..<Suc kMaxMatchesToShow] ?matches = zip [1..<16] (take 15 ?matches)"
    using zip_take_left [of "[Suc 0..<Suc kMaxMatchesToShow]" ?matches]
    by (simp add: kMaxMatchesToShow_def)
  then show ?thesis
    using assms ne many
    by (simp add: answer_def Let_def showMatches_fold print_print show_nat_15
        kMaxMatchesToShow_def)
qed

lemma answer_all:
  assumes "getMatchingArticles (index st) response \<noteq> []"
    and "length (getMatchingArticles (index st) response) \<le> kMaxMatchesToShow"
  shows "answer env response st =
     fold (\<lambda>(rank, match). showMatch env rank match)
       (zip [1..<Suc (length (getMatchingArticles (index st) response))]
          (getMatchingArticles (index st) response))
       (print (''That term appears in ''
                 @ show_nat (length (getMatchingArticles (index st) response))
                 @ '' article''
                 @ (if length (getMatchingArticles (index st) response) = 1 then [] else ''s'')
                 @ ''.  Here they are:'' @ endl) st)"
proof -
  let ?matches = "getMatchingArticles (index st) response"
  have "zip [Suc 0..<Suc kMaxMatchesToShow] ?matches = zip [1..<Suc (length ?matches)] ?matches"
    using zip_upt_short [OF assms(2)] by simp
  then show ?thesis
    using assms
    by (simp add: answer_def Let_def showMatches_fold print_print)
qed

lemma trim_Nil: "trim [] = []"
  by (simp add: trim_def)

lemma trim_empty_iff: "trim s = [] \<longleftrightarrow> (\<forall>c \<in> set s. isspace c)"
proof
  assume "trim s = []"
  then have "dropWhile isspace (rev (dropWhile isspace s)) = []"
    by (simp add: trim_def)
  then have "\<forall>c \<in> set (dropWhile isspace s). isspace c"
    by (simp add: dropWhile_eq_Nil_conv)
  then have "dropWhile isspace s = []"
    by (metis hd_dropWhile hd_in_set)
  then show "\<forall>c \<in> set s. isspace c"
    by (simp add: dropWhile_eq_Nil_conv)
next
  assume "\<forall>c \<in> set s. isspace c"
  then have "dropWhile isspace s = []"
    by (simp add: dropWhile_eq_Nil_conv)
  then show "trim s = []"
    by (simp only: trim_def rev.simps dropWhile.simps)
qed

lemma trim_surrounding:
  assumes "\<forall>c \<in> set before. isspace c" and "\<forall>c \<in> set after. isspace c"
    and "core \<noteq> []" and "\<not> isspace (hd core)" and "\<not> isspace (last core)"
  shows "trim (before @ core @ after) = core"
proof -
  have "dropWhile isspace (before @ core @ after) = core @ after"
    using assms(1,3,4) by (cases core) (simp_all add: dropWhile_append2)
  moreover have "dropWhile isspace (rev after @ rev core) = dropWhile isspace (rev core)"
    using assms(2) by (intro dropWhile_append2) simp
  moreover have "dropWhile isspace (rev core) = rev core"
    using assms(3,5) by (cases core rule: rev_cases) simp_all
  ultimately show ?thesis
    by (simp add: trim_def)
qed

lemma queryIndex_Nil: "queryIndex env [] st = print prompt st"
  by (simp add: queryIndex.simps [of env "[]"] getline_def trim_Nil)

lemma queryIndex_Cons:
  "queryIndex env (line # rest) st =
     (if trim line = [] then print prompt st
      else queryIndex env rest (answer env (trim line) (print prompt st)))"
  by (simp add: queryIndex.simps [of env "line # rest"] getline_def Let_def)

lemma queryIndex_fold:
  "queryIndex env cin st =
     print prompt
       (fold (\<lambda>line st. answer env (trim line) (print prompt st))
          (takeWhile (\<lambda>line. trim line \<noteq> []) cin) st)"
  by (induction cin arbitrary: st) (simp_all add: queryIndex_Nil queryIndex_Cons)

lemma index_print: "index (print text st) = index st"
  by (simp add: print_def)

lemma index_showMatch: "index (showMatch env rank match st) = index st"
  by (simp add: showMatch_def Let_def index_print)

lemma index_showMatches: "index (showMatches env count matches st) = index st"
  by (induction matches arbitrary: count st) (simp_all add: index_showMatch)

lemma index_answer: "index (answer env response st) = index st"
  by (simp add: answer_def Let_def index_print index_showMatches)

lemma index_queryIndex: "index (queryIndex env cin st) = index st"
  by (induction cin arbitrary: st)
     (simp_all add: queryIndex_Nil queryIndex_Cons index_print index_answer)

lemma increment_absent: "\<not> present a es \<Longrightarrow> increment a es = es @ [(a, 1)]"
  by (induction es) auto

lemma increment_last:
  "\<not> present a es \<Longrightarrow> increment a (es @ [(a, n)]) = es @ [(a, n + 1)]"
  by (induction es) auto

lemma entries_add_absent:
  assumes "\<not> present a (entries idx t)"
  shows "entries (add a ts idx) t =
     (if t \<in> set ts then entries idx t @ [(a, int (count_list ts t))] else entries idx t)"
  unfolding add_def
proof (induction ts rule: rev_induct)
  case Nil
  then show ?case by simp
next
  case (snoc x ts)
  show ?case
  proof (cases "x = t")
    case True
    show ?thesis
    proof (cases "t \<in> set ts")
      case True
      with snoc \<open>x = t\<close> assms show ?thesis
        by (simp add: entries_addToken increment_last)
    next
      case False
      with snoc \<open>x = t\<close> assms show ?thesis
        by (simp add: entries_addToken increment_absent)
    qed
  next
    case False
    with snoc show ?thesis
      by (simp add: entries_addToken)
  qed
qed

lemma stored_article:
  assumes "\<not> present a (entries idx t)" and "t \<in> set ts"
  shows "(a, int (count_list ts t)) \<in> set (getMatchingArticles (add a ts idx) t)"
proof -
  have "entries (add a ts idx) t = entries idx t @ [(a, int (count_list ts t))]"
    using assms by (simp add: entries_add_absent)
  then show ?thesis
    by (auto simp: getMatchingArticles_def entries_def split: option.splits)
qed

lemma queryIndex_prompts: "\<exists>st'. queryIndex env cin st = print prompt st'"
  using queryIndex_fold [of env cin st] by blast

lemma rank_texts: "map (\<lambda>n. setw 2 (show_nat n)) [Suc 0..<16] = rankTexts"
  by (simp add: upt_rec show_nat.simps setw_def rankTexts_def)

lemma showMatch_text:
  "showMatch env count match st =
     st\<lparr>cout := cout st @ entryText env (setw 2 (show_nat count)) match\<rparr>"
  by (simp add: showMatch_def entryText_def Let_def print_def)

lemma fold_showMatch_text:
  "fold (\<lambda>(rank, match). showMatch env rank match) pairs st =
     st\<lparr>cout := cout st
       @ concat (map (\<lambda>(rank, match). entryText env (setw 2 (show_nat rank)) match) pairs)\<rparr>"
proof (induction pairs arbitrary: st)
  case Nil
  then show ?case by simp
next
  case (Cons pair pairs)
  obtain rank match where pair: "pair = (rank, match)" by (cases pair)
  have "fold (\<lambda>(rank, match). showMatch env rank match) (pair # pairs) st =
      fold (\<lambda>(rank, match). showMatch env rank match) pairs (showMatch env rank match st)"
    by (simp add: pair)
  also have "\<dots> = (showMatch env rank match st)\<lparr>cout := cout (showMatch env rank match st)
       @ concat (map (\<lambda>(rank, match). entryText env (setw 2 (show_nat rank)) match) pairs)\<rparr>"
    by (rule Cons.IH)
  also have "\<dots> = st\<lparr>cout := cout st
       @ concat (map (\<lambda>(rank, match). entryText env (setw 2 (show_nat rank)) match)
                   (pair # pairs))\<rparr>"
    by (simp add: pair showMatch_text)
  finally show ?case .
qed

lemma showMatches_text:
  "showMatches env 0 matches st =
     st\<lparr>cout := cout st @ concat (map2 (entryText env) rankTexts matches)\<rparr>"
proof -
  have "map (\<lambda>(rank, match). entryText env (setw 2 (show_nat rank)) match)
          (zip [Suc 0..<16] matches)
        = map2 (entryText env) (map (\<lambda>n. setw 2 (show_nat n)) [Suc 0..<16]) matches"
    by (simp add: zip_map1 case_prod_unfold)
  then show ?thesis
    using showMatches_fold [of 0 env matches st]
    by (simp add: kMaxMatchesToShow_def fold_showMatch_text rank_texts)
qed

lemma answer_text:
  "answer env response st =
     st\<lparr>cout := cout st @ answerText env (getMatchingArticles (index st) response) response\<rparr>"
  by (simp add: answer_def answerText_def Let_def showMatches_text print_def show_nat_15
      kMaxMatchesToShow_def)

lemma index_cout_update: "index (st\<lparr>cout := text\<rparr>) = index st"
  by simp

lemma queryIndex_text:
  "queryIndex env cin st = st\<lparr>cout := cout st @ transcript env (index st) cin\<rparr>"
proof (induction cin arbitrary: st)
  case Nil
  then show ?case
    by (simp add: queryIndex_Nil transcript_def print_def)
next
  case (Cons line cin)
  show ?case
  proof (cases "trim line = []")
    case True
    then show ?thesis
      by (simp add: queryIndex_Cons transcript_def print_def)
  next
    case False
    then show ?thesis
      by (simp add: queryIndex_Cons Cons.IH answer_text transcript_def print_def)
  qed
qed

section \<open>The aggregator: the whole run\<close>

lemma processAllFeeds_failure:
  assumes "feedListParse env feedListURI = None"
  shows "processAllFeeds env feedListURI st =
     Exit 0 (st\<lparr>cerr := cerr st @ ''Ran into trouble while pulling full RSS feed list from ''
                      @ dquote @ feedListURI @ dquote @ ''.'' @ endl @ ''Aborting....'' @ endl\<rparr>)"
  using assms by (simp add: processAllFeeds_def Let_def printErr_def)

lemma main_one_argument:
  "main env executableName [feedListURI] cin =
     andThen (processAllFeeds env feedListURI initial) (\<lambda>st1.
       Return (0, print (''Exiting....'' @ endl) (queryIndex env cin (print endl st1))))"
  by (simp add: main_def Let_def)

lemma main_wrong_arguments:
  assumes "length args \<noteq> 1"
  shows "main env executableName args cin =
     Exit 0 (initial\<lparr>cerr := ''Error: wrong number of arguments.'' @ endl
                      @ ''Usage: '' @ executableName @ '' <feed-url>'' @ endl\<rparr>)"
  using assms by (simp add: main_def Let_def printErr_def printUsage_def initial_def)

lemma processAllFeeds_idle:
  assumes "feedListParse env feedListURI = Some allfeeds"
  shows "\<exists>st. processAllFeeds env feedListURI initial = Return st \<and> idle st"
  using assms feedLoop_idle [OF idle_initial, of env allfeeds]
  by (simp add: processAllFeeds_def)

lemma main_returns:
  assumes "feedListParse env feedListURI = Some allfeeds"
  shows "\<exists>st. main env executableName [feedListURI] cin = Return (0, st)"
proof -
  from processAllFeeds_idle [OF assms]
  obtain st1 where "processAllFeeds env feedListURI initial = Return st1" by blast
  then show ?thesis
    by (simp add: main_one_argument)
qed

lemma processAllFeeds_all_fail:
  assumes "feedListParse env feedListURI = Some allfeeds"
    and "\<forall>feed \<in> set allfeeds. feedParse env (fst feed) = None"
  shows "\<exists>st. processAllFeeds env feedListURI initial = Return st \<and> index st = emptyIndex"
proof -
  have "feedsAllowed initial \<noteq> 0"
    by (simp add: initial_def kMaxfeed_def)
  from feedLoop_all_fail [OF assms(2) this]
  obtain st where "feedLoop env allfeeds initial = Return st" and "index st = index initial"
    by blast
  then show ?thesis
    using assms(1) by (simp add: processAllFeeds_def initial_def)
qed

lemma andThen_assoc:
  "andThen (andThen outcome f) g = andThen outcome (\<lambda>x. andThen (f x) g)"
  by (cases outcome) simp_all

lemma feedLoop_append:
  "feedLoop env (feeds @ rest) st = andThen (feedLoop env feeds st) (feedLoop env rest)"
proof (induction feeds arbitrary: st)
  case Nil
  then show ?case by simp
next
  case (Cons feed feeds)
  have "feedLoop env (feeds @ rest) =
      (\<lambda>st. andThen (feedLoop env feeds st) (feedLoop env rest))"
    by (rule ext) (rule Cons.IH)
  then show ?case
    by (simp add: andThen_assoc)
qed

lemma feedLoop_all_fail_text:
  assumes "\<forall>feed \<in> set feeds. feedParse env (fst feed) = None" and "feedsAllowed st \<noteq> 0"
  shows "feedLoop env feeds st =
     Return (st\<lparr>cout := cout st
               @ concat (map (\<lambda>feed. ''Begin full download of feed URI: '' @ fst feed @ endl)
                           feeds),
               cerr := cerr st
               @ concat (map (\<lambda>feed. ''Ran into trouble while pulling full RSS feed from ''
                                 @ dquote @ fst feed @ dquote @ ''.'' @ endl
                                 @ ''Aborting....'' @ endl) feeds)\<rparr>)"
  using assms
proof (induction feeds arbitrary: st)
  case Nil
  then show ?case by simp
next
  case (Cons feed feeds)
  let ?st1 = "st\<lparr>cout := cout st @ ''Begin full download of feed URI: '' @ fst feed @ endl,
           cerr := cerr st @ ''Ran into trouble while pulling full RSS feed from ''
                        @ dquote @ fst feed @ dquote @ ''.'' @ endl @ ''Aborting....'' @ endl\<rparr>"
  have step: "feedLoop env (feed # feeds) st = feedLoop env feeds ?st1"
    using Cons.prems by (simp add: feedLoop_failure del: feedLoop.simps)
  have "\<forall>feed \<in> set feeds. feedParse env (fst feed) = None" and "feedsAllowed ?st1 \<noteq> 0"
    using Cons.prems by simp_all
  from Cons.IH [OF this] show ?case
    unfolding step by simp
qed

lemma transcript_prompt: "\<exists>answers. transcript env idx cin = prompt @ answers"
proof (cases "takeWhile (\<lambda>line. trim line \<noteq> []) cin")
  case Nil
  then show ?thesis by (simp add: transcript_def)
next
  case (Cons line lines)
  then show ?thesis by (simp add: transcript_def)
qed

lemma getMatchingArticles_empty: "getMatchingArticles emptyIndex response = []"
  by (simp add: getMatchingArticles_def emptyIndex_def)

lemma main_text:
  assumes "processAllFeeds env feedListURI initial = Return st1"
  shows "main env executableName [feedListURI] cin =
     Return (0, st1\<lparr>cout := cout st1 @ endl @ transcript env (index st1) cin
                               @ ''Exiting....'' @ endl\<rparr>)"
  by (simp add: main_one_argument assms queryIndex_text print_def)

section \<open>The examples evaluated\<close>

lemma crowdedState_go: "getMatchingArticles (index crowdedState) ''go'' =
      map (\<lambda>n. (\<lparr>title = ''Story '' @ show_nat n,
                  url = ''http://a.example/'' @ show_nat n\<rparr>, 1)) [0..<16]"
  by (simp add: crowdedState_def getMatchingArticles_def upt_rec)

lemma smallState_go: "getMatchingArticles (index smallState) ''go'' = [(articleB, 2), (articleA, 1)]"
  by (simp add: smallState_def exampleIndex_go)

lemma smallState_go_few: "getMatchingArticles (index smallState) ''go'' \<noteq> [] \<and>
      length (getMatchingArticles (index smallState) ''go'') \<le> 15"
  by (simp add: smallState_go)



lemma exampleEnv_shouldTruncate: "shouldTruncate exampleEnv s = (10 < length s)"
  by (simp add: exampleEnv_def)

lemma exampleEnv_truncateStr: "truncateStr exampleEnv s = take 7 s @ ''...''"
  by (simp add: exampleEnv_def)

lemma cout_smallState: "cout smallState = []"
  by (simp add: smallState_def initial_def)

lemma cout_crowdedState: "cout crowdedState = []"
  by (simp add: crowdedState_def initial_def)

lemma smallState_python: "getMatchingArticles (index smallState) ''python'' = []"
  by (simp add: smallState_def exampleIndex_def add_def addToken_def entries_def
      emptyIndex_def getMatchingArticles_def)

lemma trim_examples:
  "trim ''  go '' = ''go''" "trim ''python'' = ''python''" "trim '' '' = []"
  by (simp_all add: trim_def isspace_def)

text \<open>
  The crawl on the example collaborators: feed A is downloaded and its article indexed,
  feed B fails, and every permit is back in its pool.
\<close>

lemma example_crawl:
  "processAllFeeds exampleEnv ''feeds.xml'' initial =
     Return (initial\<lparr>
       index := add articleA [''go'', ''rust'', ''go''] emptyIndex,
       serverlocks := [''a.example'' \<mapsto> 12],
       cout := ''Begin full download of feed URI: http://a.example/rss'' @ endl
         @ ''  Parsing '' @ dquote @ ''A long ...'' @ dquote @ endl
         @ ''   [at '' @ dquote @ ''http://...'' @ dquote @ '']'' @ endl
         @ ''End full download of feed URI: http://a.example/rss'' @ endl
         @ ''Begin full download of feed URI: http://b.example/rss'' @ endl,
       cerr := ''Ran into trouble while pulling full RSS feed from ''
         @ dquote @ ''http://b.example/rss'' @ dquote @ ''.'' @ endl
         @ ''Aborting....'' @ endl\<rparr>)"
  by (simp add: processAllFeeds_def exampleEnv_def feedsAllowed_wait_def sem_wait_def
      feedtoTokens_def Let_def print_def printErr_def feedsAllowed_signal_def sem_signal_def
      servermaplock_lock_def servermaplock_unlock_def up_wait_def up_signal_def
      articletoTokens_def threadsAllowed_wait_def threadsAllowed_signal_def
      rssindexlock_lock_def rssindexlock_unlock_def displayed_def setw_def
      initial_def kMaxfeed_def kMaxthread_def kMaxTperS_def articleA_def dquote_def endl_def)

section \<open>Aggregator claims\<close>

text \<open>
  C1. When \<open>htmlParse\<close> fails for an article (\<^verbatim>\<open>HTMLDocument::parse\<close> throws), the
  article task returns with the index as it was, the global count \<^verbatim>\<open>threadsAllowed\<close>
  back at its value before the task took its permit, and the server's count one above
  its value at the start of the task, whose creator had taken the server's permit for
  it; no other global but the two output streams changes. In the loop that starts a
  feed's article tasks the remaining articles are then processed, from globals in which
  the index and every count are as before the failing article (the server's semaphore
  is there, with its permits, if it was not before).
\<close>

theorem article_failure_isolated:
  assumes "htmlParse env (url article) = None"
  shows "(threadsAllowed st \<noteq> 0 \<and> serverlocks st up = Some permits \<longrightarrow>
            (\<exists>st'. articletoTokens env article up st = Return st' \<and>
               index st' = index st \<and>
               threadsAllowed st' = threadsAllowed st \<and>
               serverlocks st' = (serverlocks st)(up \<mapsto> permits + 1) \<and>
               feedsAllowed st' = feedsAllowed st \<and>
               rssindexlock st' = rssindexlock st \<and>
               servermaplock st' = servermaplock st)) \<and>
         (\<not> servermaplock st \<and> threadsAllowed st \<noteq> 0 \<and>
          serverlocks st (getURLServer env (url article)) \<noteq> Some 0 \<longrightarrow>
            (\<exists>st'. articleLoop env (article # articles) st = articleLoop env articles st' \<and>
               index st' = index st \<and>
               threadsAllowed st' = threadsAllowed st \<and>
               serverlocks st' = (serverlocks st)(getURLServer env (url article) \<mapsto>
                 (case serverlocks st (getURLServer env (url article)) of
                    None \<Rightarrow> kMaxTperS | Some permits \<Rightarrow> permits)) \<and>
               feedsAllowed st' = feedsAllowed st \<and>
               rssindexlock st' = rssindexlock st \<and>
               servermaplock st' = servermaplock st))"
proof (intro conjI impI)
  assume "threadsAllowed st \<noteq> 0 \<and> serverlocks st up = Some permits"
  then show "\<exists>st'. articletoTokens env article up st = Return st' \<and>
               index st' = index st \<and>
               threadsAllowed st' = threadsAllowed st \<and>
               serverlocks st' = (serverlocks st)(up \<mapsto> permits + 1) \<and>
               feedsAllowed st' = feedsAllowed st \<and>
               rssindexlock st' = rssindexlock st \<and>
               servermaplock st' = servermaplock st"
    using assms by (simp add: articletoTokens_failure)
next
  let ?server = "getURLServer env (url article)"
  assume "\<not> servermaplock st \<and> threadsAllowed st \<noteq> 0 \<and> serverlocks st ?server \<noteq> Some 0"
  then have step: "articleLoop env (article # articles) st =
     articleLoop env articles
       (st\<lparr>serverlocks := (serverlocks st)(?server \<mapsto>
               (case serverlocks st ?server of None \<Rightarrow> kMaxTperS | Some permits \<Rightarrow> permits)),
           cout := cout st @ ''  Parsing '' @ dquote @ displayed env (title article) @ dquote @ endl
                    @ ''   [at '' @ dquote @ displayed env (url article) @ dquote @ '']'' @ endl,
           cerr := cerr st @ ''Ran into trouble while pulling full html document from ''
                    @ dquote @ url article @ dquote @ ''.'' @ endl @ ''Aborting....'' @ endl\<rparr>)"
    using assms by (intro articleLoop_failure) simp_all
  show "\<exists>st'. articleLoop env (article # articles) st = articleLoop env articles st' \<and>
               index st' = index st \<and>
               threadsAllowed st' = threadsAllowed st \<and>
               serverlocks st' = (serverlocks st)(?server \<mapsto>
                 (case serverlocks st ?server of
                    None \<Rightarrow> kMaxTperS | Some permits \<Rightarrow> permits)) \<and>
               feedsAllowed st' = feedsAllowed st \<and>
               rssindexlock st' = rssindexlock st \<and>
               servermaplock st' = servermaplock st"
    unfolding step by (intro exI conjI) (rule refl, simp_all)
qed

theorem article_failure_isolated_witness:
  "htmlParse exampleEnv (url articleB) = None \<and>
   threadsAllowed (exampleState ''b.example'') \<noteq> 0 \<and>
   serverlocks (exampleState ''b.example'') ''b.example'' = Some 11 \<and>
   \<not> servermaplock initial \<and> threadsAllowed initial \<noteq> 0 \<and>
   serverlocks initial (getURLServer exampleEnv (url articleB)) \<noteq> Some 0 \<and>
   (\<exists>st'. articletoTokens exampleEnv articleB ''b.example'' (exampleState ''b.example'')
             = Return st' \<and>
      index st' = emptyIndex \<and> threadsAllowed st' = 64 \<and>
      serverlocks st' ''b.example'' = Some 12) \<and>
   (\<exists>st'. articleLoop exampleEnv [articleB, articleA] initial
             = articleLoop exampleEnv [articleA] st' \<and>
      index st' = emptyIndex \<and> threadsAllowed st' = 64 \<and>
      serverlocks st' ''b.example'' = Some 12)"
proof -
  have fails: "htmlParse exampleEnv (url articleB) = None"
    by (simp add: exampleEnv_def articleB_def)
  have server: "getURLServer exampleEnv (url articleB) = ''b.example''"
    by (simp add: exampleEnv_def articleB_def)
  have task: "threadsAllowed (exampleState ''b.example'') \<noteq> 0 \<and>
      serverlocks (exampleState ''b.example'') ''b.example'' = Some 11"
    by (simp add: exampleState_def initial_def kMaxthread_def)
  have loop: "\<not> servermaplock initial \<and> threadsAllowed initial \<noteq> 0 \<and>
      serverlocks initial (getURLServer exampleEnv (url articleB)) \<noteq> Some 0"
    by (simp add: initial_def kMaxthread_def)
  have vals: "index (exampleState ''b.example'') = emptyIndex"
    "threadsAllowed (exampleState ''b.example'') = 64" "index initial = emptyIndex"
    "threadsAllowed initial = 64" "serverlocks initial ''b.example'' = None"
    by (simp_all add: exampleState_def initial_def kMaxthread_def)
  from article_failure_isolated [OF fails, of "exampleState ''b.example''" "''b.example''" 11
      "[articleA]"] task
  have first: "\<exists>st'. articletoTokens exampleEnv articleB ''b.example'' (exampleState ''b.example'')
             = Return st' \<and>
      index st' = emptyIndex \<and> threadsAllowed st' = 64 \<and>
      serverlocks st' ''b.example'' = Some 12"
    by (auto simp: vals)
  from article_failure_isolated [OF fails, of initial "''b.example''" 11 "[articleA]"] loop
  have second: "\<exists>st'. articleLoop exampleEnv [articleB, articleA] initial
             = articleLoop exampleEnv [articleA] st' \<and>
      index st' = emptyIndex \<and> threadsAllowed st' = 64 \<and>
      serverlocks st' ''b.example'' = Some 12"
    by (auto simp: vals server kMaxTperS_def)
  show ?thesis
    using fails task loop first second by blast
qed

text \<open>
  C2. When \<open>feedParse\<close> fails for a feed (\<^verbatim>\<open>RSSFeed::parse\<close> throws), the feed task
  gives the feed permit back and returns with no other global changed but the two
  output streams, which hold the feed's begin line and its error message: no article
  task has run. The loop over the feeds goes on with the remaining feeds, and so does
  the crawl: with the failing feed anywhere in the parsed feed list,
  \<open>processAllFeeds\<close> is the loop over the feeds after it, from the globals the feeds
  before it left and the two texts of the failing feed. Whenever the feed list parses,
  \<open>main\<close> goes on after the crawl to the empty line, the prompt of the query loop and
  the exit line, and returns 0. When every feed fails, the crawl ends with the initial
  globals and the begin line and error message of every feed, and \<open>main\<close> returns 0
  after a query loop that answers every term with the not-found line.
\<close>

theorem feed_failure_isolated:
  fixes env :: env and feed :: "string \<times> string" and st :: state
    and feeds before after allfeeds :: "(string \<times> string) list"
    and feedListURI executableName :: string and cin :: "string list"
  defines "begun \<equiv> \<lambda>feed :: string \<times> string.
      ''Begin full download of feed URI: '' @ fst feed @ endl"
  defines "trouble \<equiv> \<lambda>feed :: string \<times> string.
      ''Ran into trouble while pulling full RSS feed from '' @ dquote @ fst feed @ dquote
        @ ''.'' @ endl @ ''Aborting....'' @ endl"
  defines "asked \<equiv> ''Enter a search term [or just hit <enter> to quit]: ''"
  shows "(feedParse env (fst feed) = None \<longrightarrow>
      feedtoTokens env feed st =
        Return (st\<lparr>feedsAllowed := feedsAllowed st + 1,
                  cout := cout st @ begun feed, cerr := cerr st @ trouble feed\<rparr>) \<and>
      (feedsAllowed st \<noteq> 0 \<longrightarrow>
         feedLoop env (feed # feeds) st =
           feedLoop env feeds
             (st\<lparr>cout := cout st @ begun feed, cerr := cerr st @ trouble feed\<rparr>))) \<and>
   (feedListParse env feedListURI = Some (before @ feed # after) \<and>
    feedParse env (fst feed) = None \<longrightarrow>
      (\<exists>st1. feedLoop env before initial = Return st1 \<and>
         processAllFeeds env feedListURI initial =
           feedLoop env after
             (st1\<lparr>cout := cout st1 @ begun feed, cerr := cerr st1 @ trouble feed\<rparr>))) \<and>
   (feedListParse env feedListURI = Some allfeeds \<longrightarrow>
      (\<exists>st1 answers. processAllFeeds env feedListURI initial = Return st1 \<and>
         main env executableName [feedListURI] cin =
           Return (0, st1\<lparr>cout := cout st1 @ endl @ asked @ answers
                                   @ ''Exiting....'' @ endl\<rparr>))) \<and>
   (feedListParse env feedListURI = Some allfeeds \<and>
    (\<forall>feed \<in> set allfeeds. feedParse env (fst feed) = None) \<longrightarrow>
      processAllFeeds env feedListURI initial =
        Return (initial\<lparr>cout := concat (map begun allfeeds),
                         cerr := concat (map trouble allfeeds)\<rparr>) \<and>
      main env executableName [feedListURI] cin =
        Return (0, initial\<lparr>
          cout := concat (map begun allfeeds) @ endl
            @ concat (map (\<lambda>line. asked @ ''Ah, we didn't find the term '' @ dquote
                                   @ trim line @ dquote @ ''. Try again.'' @ endl)
                        (takeWhile (\<lambda>line. trim line \<noteq> []) cin))
            @ asked @ ''Exiting....'' @ endl,
          cerr := concat (map trouble allfeeds)\<rparr>))"
proof (intro conjI impI)
  assume "feedParse env (fst feed) = None"
  then show "feedtoTokens env feed st =
        Return (st\<lparr>feedsAllowed := feedsAllowed st + 1,
                  cout := cout st @ begun feed, cerr := cerr st @ trouble feed\<rparr>)"
    unfolding begun_def trouble_def by (rule feedtoTokens_failure)
next
  assume "feedParse env (fst feed) = None" and "feedsAllowed st \<noteq> 0"
  then show "feedLoop env (feed # feeds) st =
           feedLoop env feeds
             (st\<lparr>cout := cout st @ begun feed, cerr := cerr st @ trouble feed\<rparr>)"
    unfolding begun_def trouble_def by (rule feedLoop_failure)
next
  assume "feedListParse env feedListURI = Some (before @ feed # after) \<and>
    feedParse env (fst feed) = None"
  then have parsed: "feedListParse env feedListURI = Some (before @ feed # after)"
    and fails: "feedParse env (fst feed) = None"
    by simp_all
  from feedLoop_idle [OF idle_initial, of env before]
  obtain st1 where first: "feedLoop env before initial = Return st1" and "idle st1"
    by blast
  then have permit: "feedsAllowed st1 \<noteq> 0"
    by (simp add: idle_def)
  have "processAllFeeds env feedListURI initial = feedLoop env (before @ feed # after) initial"
    by (simp add: processAllFeeds_def parsed)
  also have "\<dots> = feedLoop env (feed # after) st1"
    by (simp only: feedLoop_append first andThen.simps)
  also have "\<dots> = feedLoop env after
      (st1\<lparr>cout := cout st1 @ begun feed, cerr := cerr st1 @ trouble feed\<rparr>)"
    unfolding begun_def trouble_def using fails permit by (rule feedLoop_failure)
  finally show "\<exists>st1. feedLoop env before initial = Return st1 \<and>
         processAllFeeds env feedListURI initial =
           feedLoop env after
             (st1\<lparr>cout := cout st1 @ begun feed, cerr := cerr st1 @ trouble feed\<rparr>)"
    using first by blast
next
  assume parsed: "feedListParse env feedListURI = Some allfeeds"
  from processAllFeeds_idle [OF parsed]
  obtain st1 where crawl: "processAllFeeds env feedListURI initial = Return st1"
    by blast
  from transcript_prompt [of env "index st1" cin]
  obtain answers where "transcript env (index st1) cin = asked @ answers"
    unfolding asked_def prompt_def by blast
  then have "main env executableName [feedListURI] cin =
      Return (0, st1\<lparr>cout := cout st1 @ endl @ asked @ answers @ ''Exiting....'' @ endl\<rparr>)"
    by (simp add: main_text [OF crawl])
  with crawl show "\<exists>st1 answers. processAllFeeds env feedListURI initial = Return st1 \<and>
         main env executableName [feedListURI] cin =
           Return (0, st1\<lparr>cout := cout st1 @ endl @ asked @ answers
                                   @ ''Exiting....'' @ endl\<rparr>)"
    by blast
next
  assume "feedListParse env feedListURI = Some allfeeds \<and>
    (\<forall>feed \<in> set allfeeds. feedParse env (fst feed) = None)"
  then have parsed: "feedListParse env feedListURI = Some allfeeds"
    and fail: "\<forall>feed \<in> set allfeeds. feedParse env (fst feed) = None"
    by simp_all
  have permit: "feedsAllowed initial \<noteq> 0"
    by (simp add: initial_def kMaxfeed_def)
  have empty: "cout initial = []" "cerr initial = []" "index initial = emptyIndex"
    by (simp_all add: initial_def)
  show crawl: "processAllFeeds env feedListURI initial =
        Return (initial\<lparr>cout := concat (map begun allfeeds),
                         cerr := concat (map trouble allfeeds)\<rparr>)"
    unfolding begun_def trouble_def
    using feedLoop_all_fail_text [OF fail permit]
    by (simp add: processAllFeeds_def parsed empty)
  show "main env executableName [feedListURI] cin =
        Return (0, initial\<lparr>
          cout := concat (map begun allfeeds) @ endl
            @ concat (map (\<lambda>line. asked @ ''Ah, we didn't find the term '' @ dquote
                                   @ trim line @ dquote @ ''. Try again.'' @ endl)
                        (takeWhile (\<lambda>line. trim line \<noteq> []) cin))
            @ asked @ ''Exiting....'' @ endl,
          cerr := concat (map trouble allfeeds)\<rparr>)"
    by (simp add: main_text [OF crawl] empty transcript_def answerText_def
        getMatchingArticles_empty asked_def prompt_def)
qed


theorem feed_failure_isolated_witness:
  "feedListParse failingEnv ''feeds.xml''
     = Some [(''http://a.example/rss'', ''A''), (''http://b.example/rss'', ''B'')] \<and>
   feedParse failingEnv ''http://a.example/rss'' = None \<and>
   feedParse failingEnv ''http://b.example/rss'' = None \<and>
   main failingEnv ''aggregate'' [''feeds.xml''] [''go'', [], ''rust''] =
     Return (0, initial\<lparr>
       cout := ''Begin full download of feed URI: http://a.example/rss'' @ endl
         @ ''Begin full download of feed URI: http://b.example/rss'' @ endl
         @ endl
         @ ''Enter a search term [or just hit <enter> to quit]: ''
         @ ''Ah, we didn't find the term '' @ dquote @ ''go'' @ dquote @ ''. Try again.'' @ endl
         @ ''Enter a search term [or just hit <enter> to quit]: ''
         @ ''Exiting....'' @ endl,
       cerr := ''Ran into trouble while pulling full RSS feed from ''
         @ dquote @ ''http://a.example/rss'' @ dquote @ ''.'' @ endl
         @ ''Aborting....'' @ endl
         @ ''Ran into trouble while pulling full RSS feed from ''
         @ dquote @ ''http://b.example/rss'' @ dquote @ ''.'' @ endl
         @ ''Aborting....'' @ endl\<rparr>) \<and>
   feedListParse resumingEnv ''feeds.xml''
     = Some ([] @ (''http://b.example/rss'', ''B'') # [(''http://a.example/rss'', ''A'')]) \<and>
   feedParse resumingEnv (fst (''http://b.example/rss'', ''B'')) = None \<and>
   processAllFeeds resumingEnv ''feeds.xml'' initial =
     Return (initial\<lparr>
       index := add articleA [''go'', ''rust'', ''go''] emptyIndex,
       serverlocks := [''a.example'' \<mapsto> 12],
       cout := ''Begin full download of feed URI: http://b.example/rss'' @ endl
         @ ''Begin full download of feed URI: http://a.example/rss'' @ endl
         @ ''  Parsing '' @ dquote @ ''A long ...'' @ dquote @ endl
         @ ''   [at '' @ dquote @ ''http://...'' @ dquote @ '']'' @ endl
         @ ''End full download of feed URI: http://a.example/rss'' @ endl,
       cerr := ''Ran into trouble while pulling full RSS feed from ''
         @ dquote @ ''http://b.example/rss'' @ dquote @ ''.'' @ endl
         @ ''Aborting....'' @ endl\<rparr>)"
proof -
  have listed: "feedListParse failingEnv ''feeds.xml''
     = Some [(''http://a.example/rss'', ''A''), (''http://b.example/rss'', ''B'')]"
    by (simp add: failingEnv_def exampleEnv_def)
  have each: "feedParse failingEnv ''http://a.example/rss'' = None"
    "feedParse failingEnv ''http://b.example/rss'' = None"
    by (simp_all add: failingEnv_def)
  have every: "feedListParse failingEnv ''feeds.xml''
       = Some [(''http://a.example/rss'', ''A''), (''http://b.example/rss'', ''B'')] \<and>
     (\<forall>feed \<in> set [(''http://a.example/rss'', ''A''), (''http://b.example/rss'', ''B'')].
        feedParse failingEnv (fst feed) = None)"
    by (simp add: listed each)
  have trims: "trim ''go'' = ''go''" "trim [] = []"
    by (simp_all add: trim_def isspace_def)
  note failed = feed_failure_isolated [where env = failingEnv and feedListURI = "''feeds.xml''"
      and allfeeds = "[(''http://a.example/rss'', ''A''), (''http://b.example/rss'', ''B'')]"
      and executableName = "''aggregate''" and cin = "[''go'', [], ''rust'']",
      THEN conjunct2, THEN conjunct2, THEN conjunct2, THEN mp, OF every, THEN conjunct2]
  have run: "main failingEnv ''aggregate'' [''feeds.xml''] [''go'', [], ''rust''] =
     Return (0, initial\<lparr>
       cout := ''Begin full download of feed URI: http://a.example/rss'' @ endl
         @ ''Begin full download of feed URI: http://b.example/rss'' @ endl
         @ endl
         @ ''Enter a search term [or just hit <enter> to quit]: ''
         @ ''Ah, we didn't find the term '' @ dquote @ ''go'' @ dquote @ ''. Try again.'' @ endl
         @ ''Enter a search term [or just hit <enter> to quit]: ''
         @ ''Exiting....'' @ endl,
       cerr := ''Ran into trouble while pulling full RSS feed from ''
         @ dquote @ ''http://a.example/rss'' @ dquote @ ''.'' @ endl
         @ ''Aborting....'' @ endl
         @ ''Ran into trouble while pulling full RSS feed from ''
         @ dquote @ ''http://b.example/rss'' @ dquote @ ''.'' @ endl
         @ ''Aborting....'' @ endl\<rparr>)"
    unfolding failed by (simp add: trims)
  have later: "feedListParse resumingEnv ''feeds.xml''
     = Some ([] @ (''http://b.example/rss'', ''B'') # [(''http://a.example/rss'', ''A'')])"
    by (simp add: resumingEnv_def)
  have fails: "feedParse resumingEnv (fst (''http://b.example/rss'', ''B'')) = None"
    by (simp add: resumingEnv_def exampleEnv_def)
  from feed_failure_isolated [where env = resumingEnv and feedListURI = "''feeds.xml''"
      and before = "[]" and feed = "(''http://b.example/rss'', ''B'')"
      and after = "[(''http://a.example/rss'', ''A'')]",
      THEN conjunct2, THEN conjunct1, THEN mp, OF conjI, OF later fails]
  have resumed: "processAllFeeds resumingEnv ''feeds.xml'' initial =
      feedLoop resumingEnv [(''http://a.example/rss'', ''A'')]
        (initial\<lparr>cout := cout initial
            @ ''Begin full download of feed URI: '' @ fst (''http://b.example/rss'', ''B'') @ endl,
          cerr := cerr initial
            @ ''Ran into trouble while pulling full RSS feed from '' @ dquote
            @ fst (''http://b.example/rss'', ''B'') @ dquote
            @ ''.'' @ endl @ ''Aborting....'' @ endl\<rparr>)"
    by auto
  have crawl: "processAllFeeds resumingEnv ''feeds.xml'' initial =
     Return (initial\<lparr>
       index := add articleA [''go'', ''rust'', ''go''] emptyIndex,
       serverlocks := [''a.example'' \<mapsto> 12],
       cout := ''Begin full download of feed URI: http://b.example/rss'' @ endl
         @ ''Begin full download of feed URI: http://a.example/rss'' @ endl
         @ ''  Parsing '' @ dquote @ ''A long ...'' @ dquote @ endl
         @ ''   [at '' @ dquote @ ''http://...'' @ dquote @ '']'' @ endl
         @ ''End full download of feed URI: http://a.example/rss'' @ endl,
       cerr := ''Ran into trouble while pulling full RSS feed from ''
         @ dquote @ ''http://b.example/rss'' @ dquote @ ''.'' @ endl
         @ ''Aborting....'' @ endl\<rparr>)"
    unfolding resumed
    by (simp add: resumingEnv_def exampleEnv_def feedsAllowed_wait_def sem_wait_def
      feedtoTokens_def Let_def print_def printErr_def feedsAllowed_signal_def sem_signal_def
      servermaplock_lock_def servermaplock_unlock_def up_wait_def up_signal_def
      articletoTokens_def threadsAllowed_wait_def threadsAllowed_signal_def
      rssindexlock_lock_def rssindexlock_unlock_def displayed_def setw_def
      initial_def kMaxfeed_def kMaxthread_def kMaxTperS_def articleA_def dquote_def endl_def)
  show ?thesis
    using listed each run later fails crawl by blast
qed

text \<open>
  C5. For a term with more than 15 matches, \<open>answer\<close> appends to \<^verbatim>\<open>cout\<close> the summary
  line, which holds the full number of matches, and the two lines of each of the first
  15 matches, with the ranks 1 to 15 in a column of width two, and changes nothing
  else. For a term with 1 to 15 matches it appends the summary line and the two lines
  of every match, ranked from 1.
\<close>

theorem display_cap:
  fixes env :: env and st :: state and response :: string
  defines "matches \<equiv> getMatchingArticles (index st) response"
  defines "entry \<equiv> \<lambda>rank match.
      ''  '' @ rank @ ''.) ''
        @ dquote @ (if shouldTruncate env (title (fst match))
                    then truncateStr env (title (fst match)) else title (fst match)) @ dquote
        @ '' [appears '' @ show_int (snd match) @ '' ''
        @ (if snd match = 1 then ''time'' else ''times'') @ ''].'' @ endl
        @ ''       ''
        @ dquote @ (if shouldTruncate env (url (fst match))
                    then truncateStr env (url (fst match)) else url (fst match)) @ dquote
        @ endl"
  shows "(15 < length matches \<longrightarrow>
      answer env response st =
        st\<lparr>cout := cout st
          @ ''That term appears in '' @ show_nat (length matches)
          @ '' articles.  Here are the top 15 of them:'' @ endl
          @ concat (map2 entry
              (['' 1'', '' 2'', '' 3'', '' 4'', '' 5''] @ ['' 6'', '' 7'', '' 8'', '' 9'', ''10'']
                @ [''11'', ''12'', ''13'', ''14'', ''15''])
              (take 15 matches))\<rparr>) \<and>
   (matches \<noteq> [] \<and> length matches \<le> 15 \<longrightarrow>
      answer env response st =
        st\<lparr>cout := cout st
          @ ''That term appears in '' @ show_nat (length matches) @ '' article''
          @ (if length matches = 1 then [] else ''s'') @ ''.  Here they are:'' @ endl
          @ concat (map2 entry
              (take (length matches)
                 (['' 1'', '' 2'', '' 3'', '' 4'', '' 5''] @ ['' 6'', '' 7'', '' 8'', '' 9'', ''10'']
                   @ [''11'', ''12'', ''13'', ''14'', ''15'']))
              matches)\<rparr>)"
proof -
  have entry: "entry = entryText env"
    by (simp add: entry_def entryText_def displayed_def fun_eq_iff)
  have ranks: "(['' 1'', '' 2'', '' 3'', '' 4'', '' 5''] @ ['' 6'', '' 7'', '' 8'', '' 9'', ''10'']
       @ [''11'', ''12'', ''13'', ''14'', ''15'']) = rankTexts"
    by (simp add: rankTexts_def)
  have len: "length rankTexts = 15"
    by (simp add: rankTexts_def)
  have top: "zip rankTexts (take 15 matches) = zip rankTexts matches"
    using zip_take_left [of rankTexts matches] by (simp add: len)
  have all: "zip (take (length matches) rankTexts) matches = zip rankTexts matches"
    using zip_take_right [of rankTexts matches] by simp
  show ?thesis
    unfolding entry ranks top all
    by (simp add: answer_text [of env response st] answerText_def matches_def [symmetric])
qed




theorem display_cap_witness:
  "15 < length (getMatchingArticles (index crowdedState) ''go'') \<and>
   answer exampleEnv ''go'' crowdedState =
     crowdedState\<lparr>cout :=
       ''That term appears in 16 articles.  Here are the top 15 of them:'' @ endl
       @ concat (map2 (\<lambda>rank story.
             ''  '' @ rank @ ''.) '' @ dquote @ ''Story '' @ story @ dquote
               @ '' [appears 1 time].'' @ endl
               @ ''       '' @ dquote @ ''http://...'' @ dquote @ endl)
           (['' 1'', '' 2'', '' 3'', '' 4'', '' 5''] @ ['' 6'', '' 7'', '' 8'', '' 9'', ''10'']
             @ [''11'', ''12'', ''13'', ''14'', ''15''])
           ([''0'', ''1'', ''2'', ''3'', ''4''] @ [''5'', ''6'', ''7'', ''8'', ''9'']
             @ [''10'', ''11'', ''12'', ''13'', ''14'']))\<rparr> \<and>
   getMatchingArticles (index smallState) ''go'' = [(articleB, 2), (articleA, 1)] \<and>
   length (getMatchingArticles (index smallState) ''go'') \<le> 15 \<and>
   answer exampleEnv ''go'' smallState =
     smallState\<lparr>cout :=
       ''That term appears in 2 articles.  Here they are:'' @ endl
       @ ''   1.) '' @ dquote @ ''B'' @ dquote @ '' [appears 2 times].'' @ endl
       @ ''       '' @ dquote @ ''http://...'' @ dquote @ endl
       @ ''   2.) '' @ dquote @ ''A long ...'' @ dquote @ '' [appears 1 time].'' @ endl
       @ ''       '' @ dquote @ ''http://...'' @ dquote @ endl\<rparr>"
proof -
  have many: "15 < length (getMatchingArticles (index crowdedState) ''go'')"
    by (simp add: crowdedState_go)
  have top: "answer exampleEnv ''go'' crowdedState =
     crowdedState\<lparr>cout :=
       ''That term appears in 16 articles.  Here are the top 15 of them:'' @ endl
       @ concat (map2 (\<lambda>rank story.
             ''  '' @ rank @ ''.) '' @ dquote @ ''Story '' @ story @ dquote
               @ '' [appears 1 time].'' @ endl
               @ ''       '' @ dquote @ ''http://...'' @ dquote @ endl)
           (['' 1'', '' 2'', '' 3'', '' 4'', '' 5''] @ ['' 6'', '' 7'', '' 8'', '' 9'', ''10'']
             @ [''11'', ''12'', ''13'', ''14'', ''15''])
           ([''0'', ''1'', ''2'', ''3'', ''4''] @ [''5'', ''6'', ''7'', ''8'', ''9'']
             @ [''10'', ''11'', ''12'', ''13'', ''14'']))\<rparr>"
    unfolding display_cap [of crowdedState "''go''" exampleEnv, THEN conjunct1, THEN mp, OF many]
    by (simp add: crowdedState_go cout_crowdedState exampleEnv_shouldTruncate
        exampleEnv_truncateStr upt_rec show_nat.simps show_int_def)
  have all: "answer exampleEnv ''go'' smallState =
     smallState\<lparr>cout :=
       ''That term appears in 2 articles.  Here they are:'' @ endl
       @ ''   1.) '' @ dquote @ ''B'' @ dquote @ '' [appears 2 times].'' @ endl
       @ ''       '' @ dquote @ ''http://...'' @ dquote @ endl
       @ ''   2.) '' @ dquote @ ''A long ...'' @ dquote @ '' [appears 1 time].'' @ endl
       @ ''       '' @ dquote @ ''http://...'' @ dquote @ endl\<rparr>"
    unfolding display_cap [of smallState "''go''" exampleEnv, THEN conjunct2, THEN mp,
        OF smallState_go_few]
    by (simp add: smallState_go cout_smallState exampleEnv_shouldTruncate
        exampleEnv_truncateStr articleA_def articleB_def show_nat.simps show_int_def)
  show ?thesis
    using many top smallState_go smallState_go_few all by blast
qed

text \<open>
  C7. \<open>trim\<close> removes the whitespace around a term, and a line trims to the empty
  string exactly when it holds nothing but whitespace. On a line that trims to the empty
  string the query loop writes its prompt and ends, leaving the rest of the input
  unread; at the end of the input it does the same. On a line that trims to a non-empty
  term it writes the prompt and the answer for the trimmed term, made of the matches
  that \<open>getMatchingArticles\<close> finds in the index, and goes on with the next line. So a
  run writes, for every line before the first one that trims to the empty string, the
  prompt and the answer, then one more prompt, and changes nothing but \<^verbatim>\<open>cout\<close>.
\<close>

theorem query_loop:
  fixes env :: env and st :: state and line word before after :: string
    and rest cin :: "string list"
  defines "asked \<equiv> ''Enter a search term [or just hit <enter> to quit]: ''"
  defines "entry \<equiv> \<lambda>rank match.
      ''  '' @ rank @ ''.) ''
        @ dquote @ (if shouldTruncate env (title (fst match))
                    then truncateStr env (title (fst match)) else title (fst match)) @ dquote
        @ '' [appears '' @ show_int (snd match) @ '' ''
        @ (if snd match = 1 then ''time'' else ''times'') @ ''].'' @ endl
        @ ''       ''
        @ dquote @ (if shouldTruncate env (url (fst match))
                    then truncateStr env (url (fst match)) else url (fst match)) @ dquote
        @ endl"
  defines "answered \<equiv> \<lambda>response.
      if getMatchingArticles (index st) response = [] then
        ''Ah, we didn't find the term '' @ dquote @ response @ dquote @ ''. Try again.'' @ endl
      else
        ''That term appears in '' @ show_nat (length (getMatchingArticles (index st) response))
          @ '' article''
          @ (if length (getMatchingArticles (index st) response) = 1 then [] else ''s'')
          @ ''.  ''
          @ (if 15 < length (getMatchingArticles (index st) response)
             then ''Here are the top 15 of them:'' else ''Here they are:'') @ endl
          @ concat (map2 entry
              (['' 1'', '' 2'', '' 3'', '' 4'', '' 5''] @ ['' 6'', '' 7'', '' 8'', '' 9'', ''10'']
                @ [''11'', ''12'', ''13'', ''14'', ''15''])
              (take 15 (getMatchingArticles (index st) response)))"
  shows "(trim line = [] \<longleftrightarrow> (\<forall>c \<in> set line. isspace c)) \<and>
   ((\<forall>c \<in> set before. isspace c) \<and> (\<forall>c \<in> set after. isspace c) \<and>
    word \<noteq> [] \<and> \<not> isspace (hd word) \<and> \<not> isspace (last word) \<longrightarrow>
      trim (before @ word @ after) = word) \<and>
   (trim line = [] \<longrightarrow> queryIndex env (line # rest) st = st\<lparr>cout := cout st @ asked\<rparr>) \<and>
   (trim line \<noteq> [] \<longrightarrow>
      queryIndex env (line # rest) st =
        queryIndex env rest (st\<lparr>cout := cout st @ asked @ answered (trim line)\<rparr>)) \<and>
   queryIndex env [] st = st\<lparr>cout := cout st @ asked\<rparr> \<and>
   queryIndex env cin st =
     st\<lparr>cout := cout st
       @ concat (map (\<lambda>line. asked @ answered (trim line))
                   (takeWhile (\<lambda>line. trim line \<noteq> []) cin))
       @ asked\<rparr>"
proof -
  have entry: "entry = entryText env"
    by (simp add: entry_def entryText_def displayed_def fun_eq_iff)
  have ranks: "(['' 1'', '' 2'', '' 3'', '' 4'', '' 5''] @ ['' 6'', '' 7'', '' 8'', '' 9'', ''10'']
       @ [''11'', ''12'', ''13'', ''14'', ''15'']) = rankTexts"
    by (simp add: rankTexts_def)
  have len: "length rankTexts = 15"
    by (simp add: rankTexts_def)
  have top: "zip rankTexts (take 15 matches) = zip rankTexts matches"
    for matches :: "(Article \<times> int) list"
    using zip_take_left [of rankTexts matches] by (simp add: len)
  have answered: "answered response
      = answerText env (getMatchingArticles (index st) response) response" for response
    unfolding answered_def entry ranks top by (simp add: answerText_def)
  have asked: "asked = prompt"
    by (simp add: asked_def prompt_def)
  have blank: "trim line = [] \<longleftrightarrow> (\<forall>c \<in> set line. isspace c)"
    by (rule trim_empty_iff)
  have around: "trim (before @ word @ after) = word"
    if "(\<forall>c \<in> set before. isspace c) \<and> (\<forall>c \<in> set after. isspace c) \<and>
        word \<noteq> [] \<and> \<not> isspace (hd word) \<and> \<not> isspace (last word)"
    using that by (intro trim_surrounding) simp_all
  have stop: "queryIndex env (line # rest) st = st\<lparr>cout := cout st @ asked\<rparr>"
    if "trim line = []"
    using that by (simp add: queryIndex_Cons print_def asked)
  have step: "queryIndex env (line # rest) st =
        queryIndex env rest (st\<lparr>cout := cout st @ asked @ answered (trim line)\<rparr>)"
    if "trim line \<noteq> []"
    using that by (simp add: queryIndex_Cons answer_text print_def asked answered)
  have eof: "queryIndex env [] st = st\<lparr>cout := cout st @ asked\<rparr>"
    by (simp add: queryIndex_Nil print_def asked)
  have whole: "queryIndex env cin st =
     st\<lparr>cout := cout st
       @ concat (map (\<lambda>line. asked @ answered (trim line))
                   (takeWhile (\<lambda>line. trim line \<noteq> []) cin))
       @ asked\<rparr>"
    by (simp add: queryIndex_text transcript_def asked answered)
  from blank around stop step eof whole show ?thesis
    by blast
qed

theorem query_loop_witness:
  "isspace (CHR '' '') \<and> \<not> isspace (hd ''go'') \<and> \<not> isspace (last ''go'') \<and>
   trim ''  go '' = ''go'' \<and> trim ''python'' = ''python'' \<and> trim '' '' = [] \<and>
   queryIndex exampleEnv ['' '', ''rust''] smallState =
     smallState\<lparr>cout := ''Enter a search term [or just hit <enter> to quit]: ''\<rparr> \<and>
   queryIndex exampleEnv [''  go '', ''python'', '' '', ''rust''] smallState =
     smallState\<lparr>cout :=
       ''Enter a search term [or just hit <enter> to quit]: ''
       @ ''That term appears in 2 articles.  Here they are:'' @ endl
       @ ''   1.) '' @ dquote @ ''B'' @ dquote @ '' [appears 2 times].'' @ endl
       @ ''       '' @ dquote @ ''http://...'' @ dquote @ endl
       @ ''   2.) '' @ dquote @ ''A long ...'' @ dquote @ '' [appears 1 time].'' @ endl
       @ ''       '' @ dquote @ ''http://...'' @ dquote @ endl
       @ ''Enter a search term [or just hit <enter> to quit]: ''
       @ ''Ah, we didn't find the term '' @ dquote @ ''python'' @ dquote
       @ ''. Try again.'' @ endl
       @ ''Enter a search term [or just hit <enter> to quit]: ''\<rparr>"
proof -
  have spaces: "isspace (CHR '' '') \<and> \<not> isspace (hd ''go'') \<and> \<not> isspace (last ''go'')"
    by (simp add: isspace_def)
  have blank: "trim '' '' = []"
    by (rule trim_examples)
  note stop = query_loop [where env = exampleEnv and st = smallState and line = "'' ''"
      and rest = "[''rust'']", THEN conjunct2, THEN conjunct2, THEN conjunct1, THEN mp, OF blank]
  note whole = query_loop [where env = exampleEnv and st = smallState
      and cin = "[''  go '', ''python'', '' '', ''rust'']",
      THEN conjunct2, THEN conjunct2, THEN conjunct2, THEN conjunct2, THEN conjunct2]
  have ended: "queryIndex exampleEnv ['' '', ''rust''] smallState =
     smallState\<lparr>cout := ''Enter a search term [or just hit <enter> to quit]: ''\<rparr>"
    unfolding stop by (simp add: cout_smallState)
  have run: "queryIndex exampleEnv [''  go '', ''python'', '' '', ''rust''] smallState =
     smallState\<lparr>cout :=
       ''Enter a search term [or just hit <enter> to quit]: ''
       @ ''That term appears in 2 articles.  Here they are:'' @ endl
       @ ''   1.) '' @ dquote @ ''B'' @ dquote @ '' [appears 2 times].'' @ endl
       @ ''       '' @ dquote @ ''http://...'' @ dquote @ endl
       @ ''   2.) '' @ dquote @ ''A long ...'' @ dquote @ '' [appears 1 time].'' @ endl
       @ ''       '' @ dquote @ ''http://...'' @ dquote @ endl
       @ ''Enter a search term [or just hit <enter> to quit]: ''
       @ ''Ah, we didn't find the term '' @ dquote @ ''python'' @ dquote
       @ ''. Try again.'' @ endl
       @ ''Enter a search term [or just hit <enter> to quit]: ''\<rparr>"
    unfolding whole
    by (simp add: trim_examples smallState_go smallState_python cout_smallState
        exampleEnv_shouldTruncate exampleEnv_truncateStr articleA_def articleB_def
        show_nat.simps show_int_def)
  show ?thesis
    using spaces trim_examples ended run by blast
qed

text \<open>
  C8. When \<open>feedListParse\<close> fails (\<^verbatim>\<open>RSSFeedList::parse\<close> throws),
  \<open>processAllFeeds\<close> exits with status 0 and so does \<open>main\<close>, with globals that differ
  from the initial ones in the text on \<^verbatim>\<open>cerr\<close> only: the index is empty, no permit
  was taken, no server semaphore was created and nothing was written to \<^verbatim>\<open>cout\<close>, so
  neither a feed nor the query loop has run.
\<close>

theorem feed_list_failure_aborts:
  assumes "feedListParse env feedListURI = None"
  shows "processAllFeeds env feedListURI st =
           Exit 0 (st\<lparr>cerr := cerr st @ ''Ran into trouble while pulling full RSS feed list from ''
                      @ dquote @ feedListURI @ dquote @ ''.'' @ endl @ ''Aborting....'' @ endl\<rparr>) \<and>
         main env executableName [feedListURI] cin =
           Exit 0 (initial\<lparr>cerr := ''Ran into trouble while pulling full RSS feed list from ''
                      @ dquote @ feedListURI @ dquote @ ''.'' @ endl @ ''Aborting....'' @ endl\<rparr>)"
  using assms
  by (simp add: processAllFeeds_failure main_one_argument initial_def)

theorem feed_list_failure_aborts_witness:
  "feedListParse exampleEnv ''missing.xml'' = None \<and>
   (\<exists>st. main exampleEnv ''aggregate'' [''missing.xml''] [''go'', ''''] = Exit 0 st \<and>
      index st = emptyIndex \<and> cout st = [] \<and> serverlocks st = Map.empty \<and>
      feedsAllowed st = 8 \<and> threadsAllowed st = 64)"
proof -
  have none: "feedListParse exampleEnv ''missing.xml'' = None"
    by (simp add: exampleEnv_def)
  show ?thesis
    using feed_list_failure_aborts [OF none, of initial "''aggregate''" "[''go'', '''']"] none
    by (simp add: initial_def kMaxfeed_def kMaxthread_def)
qed

text \<open>
  C9. With any number of user arguments other than one (\<^verbatim>\<open>argc != 2\<close>), \<open>main\<close> writes
  the error and the usage line to \<^verbatim>\<open>cerr\<close> and exits with status 0; the globals are
  otherwise the initial ones, so there was no crawl and no query.
\<close>

theorem wrong_argument_count:
  assumes "length args \<noteq> 1"
  shows "main env executableName args cin =
     Exit 0 (initial\<lparr>cerr := ''Error: wrong number of arguments.'' @ endl
                      @ ''Usage: '' @ executableName @ '' <feed-url>'' @ endl\<rparr>)"
  using assms by (rule main_wrong_arguments)

theorem wrong_argument_count_witness:
  "length ([] :: string list) \<noteq> 1 \<and> length [''feeds.xml'', ''extra''] \<noteq> 1 \<and>
   (\<exists>st. main exampleEnv ''aggregate'' [] [''go''] = Exit 0 st \<and> cout st = [] \<and>
      index st = emptyIndex \<and>
      cerr st = ''Error: wrong number of arguments.'' @ endl
                  @ ''Usage: aggregate <feed-url>'' @ endl) \<and>
   (\<exists>st. main exampleEnv ''aggregate'' [''feeds.xml'', ''extra''] [''go''] = Exit 0 st \<and>
      cout st = [] \<and> index st = emptyIndex)"
  using wrong_argument_count [of "[]" exampleEnv "''aggregate''" "[''go'']"]
    wrong_argument_count [of "[''feeds.xml'', ''extra'']" exampleEnv "''aggregate''" "[''go'']"]
  by (simp add: initial_def)

text \<open>
  C10. When an article is fetched and parsed, the index after its task is the index
  before with \<open>add\<close> applied to the article as it came from the feed, whatever
  \<open>shouldTruncate\<close> and \<open>truncateStr\<close> do: for every token the article was not indexed
  under before, the matches of the token hold the article itself, with its title and
  URL as they were. Truncation shows in the two progress lines only. The query loop
  leaves the index as it is.
\<close>

theorem truncation_not_stored:
  assumes "htmlParse env (url article) = Some tokens"
    and "threadsAllowed st \<noteq> 0"
    and "\<not> rssindexlock st"
    and "serverlocks st up = Some permits"
  shows "\<exists>st'. articletoTokens env article up st = Return st' \<and>
           index st' = add article tokens (index st) \<and>
           cout st' = cout st
             @ ''  Parsing '' @ dquote @ displayed env (title article) @ dquote @ endl
             @ ''   [at '' @ dquote @ displayed env (url article) @ dquote @ '']'' @ endl \<and>
           (\<forall>token \<in> set tokens. \<not> present article (entries (index st) token) \<longrightarrow>
              (article, int (count_list tokens token))
                \<in> set (getMatchingArticles (index st') token)) \<and>
           index (queryIndex env cin st') = index st'"
proof -
  let ?st' = "st\<lparr>index := add article tokens (index st),
               serverlocks := (serverlocks st)(up \<mapsto> permits + 1),
               cout := cout st @ ''  Parsing '' @ dquote @ displayed env (title article) @ dquote @ endl
                        @ ''   [at '' @ dquote @ displayed env (url article) @ dquote @ '']'' @ endl\<rparr>"
  have task: "articletoTokens env article up st = Return ?st'"
    using assms by (rule articletoTokens_success)
  have stored: "index ?st' = add article tokens (index st)"
    by simp
  have printed: "cout ?st' = cout st
             @ ''  Parsing '' @ dquote @ displayed env (title article) @ dquote @ endl
             @ ''   [at '' @ dquote @ displayed env (url article) @ dquote @ '']'' @ endl"
    by simp
  have found: "\<forall>token \<in> set tokens. \<not> present article (entries (index st) token) \<longrightarrow>
      (article, int (count_list tokens token)) \<in> set (getMatchingArticles (index ?st') token)"
    unfolding stored by (simp add: stored_article)
  have "index (queryIndex env cin ?st') = index ?st'"
    by (rule index_queryIndex)
  with task stored printed found show ?thesis
    by blast
qed

theorem truncation_not_stored_witness:
  "htmlParse exampleEnv (url articleA) = Some [''go'', ''rust'', ''go''] \<and>
   threadsAllowed (exampleState ''a.example'') \<noteq> 0 \<and>
   \<not> rssindexlock (exampleState ''a.example'') \<and>
   serverlocks (exampleState ''a.example'') ''a.example'' = Some 11 \<and>
   displayed exampleEnv (title articleA) = ''A long ...'' \<and>
   title articleA = ''A long headline about Go'' \<and>
   (\<exists>st'. articletoTokens exampleEnv articleA ''a.example'' (exampleState ''a.example'')
             = Return st' \<and>
      index st' = add articleA [''go'', ''rust'', ''go''] emptyIndex \<and>
      (articleA, 2) \<in> set (getMatchingArticles (index st') ''go'') \<and>
      index (queryIndex exampleEnv [''go'', []] st') = index st')"
proof -
  have parsed: "htmlParse exampleEnv (url articleA) = Some [''go'', ''rust'', ''go'']"
    by (simp add: exampleEnv_def articleA_def)
  have ready: "threadsAllowed (exampleState ''a.example'') \<noteq> 0"
    "\<not> rssindexlock (exampleState ''a.example'')"
    "serverlocks (exampleState ''a.example'') ''a.example'' = Some 11"
    by (simp_all add: exampleState_def initial_def kMaxthread_def)
  have shown: "displayed exampleEnv (title articleA) = ''A long ...''"
    "title articleA = ''A long headline about Go''"
    by (simp_all add: displayed_def exampleEnv_def articleA_def)
  have fresh: "index (exampleState ''a.example'') = emptyIndex"
    "\<not> present articleA (entries emptyIndex ''go'')"
    by (simp_all add: exampleState_def initial_def entries_def emptyIndex_def)
  from truncation_not_stored [OF parsed ready, of "[''go'', []]"]
  obtain st' where "articletoTokens exampleEnv articleA ''a.example'' (exampleState ''a.example'')
        = Return st'"
    and "index st' = add articleA [''go'', ''rust'', ''go''] (index (exampleState ''a.example''))"
    and "\<forall>token \<in> set [''go'', ''rust'', ''go''].
           \<not> present articleA (entries (index (exampleState ''a.example'')) token) \<longrightarrow>
           (articleA, int (count_list [''go'', ''rust'', ''go''] token))
             \<in> set (getMatchingArticles (index st') token)"
    and "index (queryIndex exampleEnv [''go'', []] st') = index st'"
    by blast
  then have "\<exists>st'. articletoTokens exampleEnv articleA ''a.example'' (exampleState ''a.example'')
             = Return st' \<and>
      index st' = add articleA [''go'', ''rust'', ''go''] emptyIndex \<and>
      (articleA, 2) \<in> set (getMatchingArticles (index st') ''go'') \<and>
      index (queryIndex exampleEnv [''go'', []] st') = index st'"
    using fresh by (intro exI [of _ st']) simp
  with parsed ready shown show ?thesis
    by blast
qed

end
